theory Spec2Isabelle
  imports Main "HOL-Library.Char_ord" "HOL-Library.List_Lexorder" "HOL-Library.Multiset"
begin

section \<open>Python strings\<close>

text \<open>
  A Python \<open>str\<close> is modelled as a \<open>string\<close>, the list of the bytes of its UTF-8
  encoding: the characters that the code and its libraries look for (\<open>/\<close>, \<open>:\<close>,
  \<open>?\<close>, \<open>#\<close>, \<open>;\<close>, the brackets, the letters of a scheme) are ASCII, and a byte
  of a longer sequence is none of them. The order on strings is the lexicographic order
  on characters (\<open>List_Lexorder\<close> over \<open>Char_ord\<close>); on UTF-8 it is the order of the
  code points, by which Python compares strings.
\<close>

definition startswith :: "string \<Rightarrow> string \<Rightarrow> bool" where
  \<comment> \<open>\<open>s.startswith(p)\<close>\<close>
  "startswith s p = (take (length p) s = p)"

definition endswith :: "string \<Rightarrow> string \<Rightarrow> bool" where
  \<comment> \<open>\<open>s.endswith(p)\<close>\<close>
  "endswith s p = (drop (length s - length p) s = p)"

fun split_sep :: "char \<Rightarrow> string \<Rightarrow> string list" where
  \<comment> \<open>\<open>s.split(c)\<close> for a one-character separator: never the empty list\<close>
  "split_sep c [] = [[]]"
| "split_sep c (x # xs) =
     (if x = c then [] # split_sep c xs
      else (case split_sep c xs of
              w # ws \<Rightarrow> (x # w) # ws
            | [] \<Rightarrow> [[x]]))"

fun join_sep :: "string \<Rightarrow> string list \<Rightarrow> string" where
  \<comment> \<open>\<open>sep.join(xs)\<close>\<close>
  "join_sep sep [] = []"
| "join_sep sep [x] = x"
| "join_sep sep (x # y # ys) = x @ sep @ join_sep sep (y # ys)"

definition before_first :: "char \<Rightarrow> string \<Rightarrow> string" where
  \<comment> \<open>\<open>s[:s.find(c)]\<close> when \<open>c\<close> occurs in \<open>s\<close>, else \<open>s\<close>\<close>
  "before_first c s = takeWhile (\<lambda>x. x \<noteq> c) s"

definition after_first :: "char \<Rightarrow> string \<Rightarrow> string" where
  \<comment> \<open>\<open>s[s.find(c)+1:]\<close> when \<open>c\<close> occurs in \<open>s\<close>, else the empty string\<close>
  "after_first c s = drop 1 (dropWhile (\<lambda>x. x \<noteq> c) s)"

definition lower_char :: "char \<Rightarrow> char" where
  \<comment> \<open>\<open>str.lower\<close> on one character of the ASCII range\<close>
  "lower_char c =
     (if CHR ''A'' \<le> c \<and> c \<le> CHR ''Z'' then char_of (of_char c + (32::nat)) else c)"

definition is_ascii_alpha :: "char \<Rightarrow> bool" where
  \<comment> \<open>\<open>c.isascii() and c.isalpha()\<close>\<close>
  "is_ascii_alpha c =
     ((CHR ''a'' \<le> c \<and> c \<le> CHR ''z'') \<or> (CHR ''A'' \<le> c \<and> c \<le> CHR ''Z''))"

definition is_ascii :: "string \<Rightarrow> bool" where
  \<comment> \<open>\<open>s.isascii()\<close>\<close>
  "is_ascii s = list_all (\<lambda>c. of_char c < (128::nat)) s"

section \<open>Exceptions\<close>

text \<open>
  An exception that leaves a function is the \<open>Inl\<close> of its result. The code raises
  \<open>Exception\<close> for a URI of another scheme and \<open>MlflowException\<close> elsewhere; they are
  told apart here by what they report.
\<close>

datatype error =
    InvalidURIScheme string
      \<comment> \<open>\<open>Exception("Not an OSS URI: %s" % uri)\<close>\<close>
  | ObjectPathMismatch string string
      \<comment> \<open>\<open>MlflowException\<close> of the listing check: the artifact path, the object path\<close>
  | NotImplemented
      \<comment> \<open>\<open>MlflowException("Delete artifacts not implemented yet for Aliyun OSS")\<close>\<close>
  | MissingEndpoint
      \<comment> \<open>\<open>MlflowException("Please set MLFLOW_OSS_ENDPOINT_URL ...")\<close>\<close>
  | MissingCredentials
      \<comment> \<open>\<open>MlflowException("Please set MLFLOW_OSS_KEY_ID and ...")\<close>\<close>
  | ValueError
      \<comment> \<open>raised by \<open>urlsplit\<close> and by \<open>relpath\<close>\<close>
  | AttributeError
      \<comment> \<open>an attribute that \<open>__init__\<close> did not set is read\<close>
  | StorageError string
      \<comment> \<open>whatever the storage SDK raises\<close>

section \<open>The execution environment\<close>

text \<open>
  What the code reads from its process and from the local file system: the working
  directory (\<open>os.getcwd()\<close>, used by \<open>abspath\<close> and \<open>relpath\<close>), the environment
  variables, whether the default credential client can be built, the directory tree that
  \<open>os.walk\<close> finds at an absolute path, and the two validations of a network location
  that \<open>urllib.parse.urlsplit\<close> delegates to other modules (\<open>ipaddress\<close> for a
  bracketed host, \<open>unicodedata\<close> for a non-ASCII one).
\<close>

datatype fstree = Dir (filenames: "string list") (subdirs: "(string \<times> fstree) list")

record environment =
  getcwd :: string
  environ :: "string \<Rightarrow> string option"
  default_credentials :: bool
  local_dirs :: "string \<Rightarrow> fstree option"
  bracketed_host_ok :: "string \<Rightarrow> bool"
  nfkc_netloc_ok :: "string \<Rightarrow> bool"

section \<open>posixpath\<close>

text \<open>
  The host is taken to be a POSIX system, so \<open>os.path\<close> is \<open>posixpath\<close>, \<open>os.sep\<close> is
  \<open>/\<close> and mlflow's \<open>relative_path_to_artifact_path\<close> returns its argument.
\<close>

definition isabs :: "string \<Rightarrow> bool" where
  "isabs p = startswith p ''/''"

definition posix_join :: "string \<Rightarrow> string \<Rightarrow> string" where
  \<comment> \<open>\<open>posixpath.join(a, b)\<close>\<close>
  "posix_join a b =
     (if startswith b ''/'' then b
      else if a = [] \<or> endswith a ''/'' then a @ b
      else a @ ''/'' @ b)"

definition basename :: "string \<Rightarrow> string" where
  \<comment> \<open>\<open>p[p.rfind('/') + 1:]\<close>\<close>
  "basename p = rev (takeWhile (\<lambda>c. c \<noteq> CHR ''/'') (rev p))"

fun norm_comps :: "bool \<Rightarrow> string list \<Rightarrow> string list \<Rightarrow> string list" where
  \<comment> \<open>the loop of \<open>normpath\<close> over the components; \<open>new_comps\<close> is the accumulator\<close>
  "norm_comps initial_slashes [] new_comps = new_comps"
| "norm_comps initial_slashes (c # comps) new_comps =
     (if c = [] \<or> c = ''.'' then norm_comps initial_slashes comps new_comps
      else if c \<noteq> ''..'' \<or> (\<not> initial_slashes \<and> new_comps = [])
                \<or> (new_comps \<noteq> [] \<and> last new_comps = ''..'')
        then norm_comps initial_slashes comps (new_comps @ [c])
      else if new_comps \<noteq> [] then norm_comps initial_slashes comps (butlast new_comps)
      else norm_comps initial_slashes comps new_comps)"

definition normpath :: "string \<Rightarrow> string" where
  "normpath p =
     (if p = [] then ''.''
      else
        let initial_slashes =
              (if startswith p ''/'' then
                 (if startswith p ''//'' \<and> \<not> startswith p ''///'' then 2 else 1)
               else (0::nat));
            comps = norm_comps (initial_slashes \<noteq> 0) (split_sep CHR ''/'' p) [];
            q = replicate initial_slashes CHR ''/'' @ join_sep ''/'' comps
        in if q = [] then ''.'' else q)"

definition abspath :: "environment \<Rightarrow> string \<Rightarrow> string" where
  "abspath env p = normpath (if isabs p then p else posix_join (getcwd env) p)"

fun commonprefix :: "string list \<Rightarrow> string list \<Rightarrow> string list" where
  \<comment> \<open>\<open>os.path.commonprefix\<close> of two lists of components: the longest common prefix
      (of their minimum and maximum, which is that of the two lists)\<close>
  "commonprefix (x # xs) (y # ys) = (if x = y then x # commonprefix xs ys else [])"
| "commonprefix xs ys = []"

abbreviation components :: "string \<Rightarrow> string list" where
  \<comment> \<open>\<open>[x for x in p.split('/') if x]\<close>\<close>
  "components p \<equiv> filter (\<lambda>x. x \<noteq> []) (split_sep CHR ''/'' p)"

definition rel_of :: "environment \<Rightarrow> string \<Rightarrow> string \<Rightarrow> string" where
  \<comment> \<open>the body of \<open>posixpath.relpath(path, start)\<close>, after its check of the path\<close>
  "rel_of env p start =
     (let start_list = components (abspath env start);
          path_list = components (abspath env p);
          i = length (commonprefix start_list path_list);
          rel_list = replicate (length start_list - i) ''..'' @ drop i path_list
      in if rel_list = [] then ''.'' else join_sep ''/'' rel_list)"

definition relpath :: "environment \<Rightarrow> string \<Rightarrow> string \<Rightarrow> error + string" where
  \<comment> \<open>\<open>posixpath.relpath(path, start)\<close>: an empty path is a \<open>ValueError\<close>\<close>
  "relpath env p start = (if p = [] then Inl ValueError else Inr (rel_of env p start))"

section \<open>urllib.parse\<close>

text \<open>
  \<open>six.moves.urllib.parse.urlparse\<close> is \<open>urllib.parse.urlparse\<close> of Python 3:
  \<open>urlsplit\<close> strips leading control characters and spaces, removes tabs and line
  breaks, takes the scheme (lower-cased) when the text before the first \<open>:\<close> is made
  of scheme characters and begins with a letter, takes the network location after
  \<open>//\<close> up to the first \<open>/\<close>, \<open>?\<close> or \<open>#\<close>, and splits the fragment and the query
  off the rest; \<open>urlparse\<close> then splits the parameters off the path for the schemes
  of \<open>uses_params\<close>. A \<open>ValueError\<close> is raised for unbalanced brackets in the
  network location and when one of the two validations of the environment fails.
\<close>

record ParseResult =
  scheme :: string
  netloc :: string
  path :: string
  params :: string
  query :: string
  fragment :: string

definition scheme_chars :: string where
  "scheme_chars =
     ''abcdefghijklmnopqrstuvwxyzABCDEFGHIJKLMNOPQRSTUVWXYZ0123456789+-.''"

definition uses_params :: "string list" where
  "uses_params =
     ['''', ''ftp'', ''hdl'', ''prospero'', ''http'', ''imap'', ''https'', ''shttp'',
      ''rtsp'', ''rtspu'', ''sip'', ''sips'', ''mms'', ''sftp'', ''tel'']"

definition split_scheme :: "string \<Rightarrow> string \<times> string" where
  \<comment> \<open>the scheme and the rest of the URL: \<open>i = url.find(':')\<close> and what follows\<close>
  "split_scheme url =
     (let pre = before_first CHR '':'' url in
      if CHR '':'' \<in> set url \<and> pre \<noteq> [] \<and> is_ascii_alpha (hd url)
           \<and> list_all (\<lambda>c. c \<in> set scheme_chars) pre
        then (map lower_char pre, after_first CHR '':'' url)
      else ([], url))"

definition splitnetloc :: "string \<Rightarrow> string \<times> string" where
  \<comment> \<open>\<open>_splitnetloc(url, 2)\<close>: up to the first of \<open>/\<close>, \<open>?\<close>, \<open>#\<close> after the two slashes\<close>
  "splitnetloc url =
     (let r = drop 2 url in
      (takeWhile (\<lambda>c. c \<notin> set ''/?#'') r, dropWhile (\<lambda>c. c \<notin> set ''/?#'') r))"

definition urlsplit :: "environment \<Rightarrow> string \<Rightarrow> error + ParseResult" where
  "urlsplit env url0 =
     (let url1 = dropWhile (\<lambda>c. of_char c \<le> (32::nat)) url0;
          url2 = filter (\<lambda>c. c \<notin> set [CHR 0x09, CHR 0x0A, CHR 0x0D]) url1;
          (sch, url3) = split_scheme url2;
          (nl, url4) = (if take 2 url3 = ''//'' then splitnetloc url3 else ([], url3))
      in
      if take 2 url3 = ''//'' \<and>
           ((CHR ''['' \<in> set nl \<and> CHR '']'' \<notin> set nl) \<or> (CHR '']'' \<in> set nl \<and> CHR ''['' \<notin> set nl))
        then Inl ValueError
      else if take 2 url3 = ''//'' \<and> CHR ''['' \<in> set nl \<and> CHR '']'' \<in> set nl \<and>
           \<not> bracketed_host_ok env (before_first CHR '']'' (after_first CHR ''['' nl))
        then Inl ValueError
      else
        let frag = (if CHR ''#'' \<in> set url4 then after_first CHR ''#'' url4 else []);
            url5 = before_first CHR ''#'' url4;
            qry = (if CHR ''?'' \<in> set url5 then after_first CHR ''?'' url5 else []);
            url6 = before_first CHR ''?'' url5
        in
        if nl \<noteq> [] \<and> \<not> is_ascii nl \<and> \<not> nfkc_netloc_ok env nl then Inl ValueError
        else Inr \<lparr>scheme = sch, netloc = nl, path = url6, params = [],
                   query = qry, fragment = frag\<rparr>)"

definition splitparams :: "string \<Rightarrow> string \<times> string" where
  \<comment> \<open>\<open>_splitparams\<close>, called on a URL that holds a \<open>;\<close>: the first \<open>;\<close> of the last segment\<close>
  "splitparams url =
     (if CHR ''/'' \<in> set url then
        (let n = length url - length (basename url);
             seg = drop n url
         in if CHR '';'' \<in> set seg
            then (take n url @ before_first CHR '';'' seg, after_first CHR '';'' seg)
            else (url, []))
      else (before_first CHR '';'' url, after_first CHR '';'' url))"

definition urlparse :: "environment \<Rightarrow> string \<Rightarrow> error + ParseResult" where
  "urlparse env uri =
     (case urlsplit env uri of
        Inl e \<Rightarrow> Inl e
      | Inr r \<Rightarrow>
          if scheme r \<in> set uses_params \<and> CHR '';'' \<in> set (path r)
          then Inr (r\<lparr>path := fst (splitparams (path r)), params := snd (splitparams (path r))\<rparr>)
          else Inr r)"

section \<open>The artifact repository\<close>

definition parse_oss_uri :: "environment \<Rightarrow> string \<Rightarrow> error + (string \<times> string)" where
  "parse_oss_uri env uri =
     (case urlparse env uri of
        Inl e \<Rightarrow> Inl e
      | Inr parsed \<Rightarrow>
          if scheme parsed \<noteq> ''oss'' then Inl (InvalidURIScheme uri)
          else
            let p = path parsed;
                p' = (if startswith p ''/'' then drop 1 p else p)
            in Inr (netloc parsed, p'))"

subsection \<open>The storage collaborator\<close>

text \<open>
  \<open>oss2.Auth(key_id, key_secret)\<close> and \<open>oss2.ProviderAuth(provider)\<close> are the two ways
  the constructor authenticates. A bucket handle \<open>oss2.Bucket(auth, endpoint, name)\<close>
  is the record of its three arguments: building it does no I/O.
\<close>

datatype oss_auth = Auth string string | ProviderAuth

record bucket_handle =
  handle_auth :: oss_auth
  handle_endpoint :: string
  handle_name :: string

record object_info =
  \<comment> \<open>an element of \<open>results.object_list\<close>: the attributes the code reads\<close>
  obj_key :: string
  obj_size :: int

record list_result =
  object_list :: "object_info list"
  prefix_list :: "string list"

text \<open>
  The calls made on the handle are recorded, in order, the latest last. What the storage
  answers may depend on every call made before: the SDK either raises (a message) or
  returns.
\<close>

datatype oss_call =
    PutObjectFromFile bucket_handle string string
  | GetObjectToFile bucket_handle string string
  | ListObjects bucket_handle string string

record oss_service =
  put_raises :: "oss_call list \<Rightarrow> bucket_handle \<Rightarrow> string \<Rightarrow> string \<Rightarrow> string option"
  get_raises :: "oss_call list \<Rightarrow> bucket_handle \<Rightarrow> string \<Rightarrow> string \<Rightarrow> string option"
  list_answer :: "oss_call list \<Rightarrow> bucket_handle \<Rightarrow> string \<Rightarrow> string \<Rightarrow> string + list_result"

definition put_object_from_file ::
  "oss_service \<Rightarrow> bucket_handle \<Rightarrow> string \<Rightarrow> string \<Rightarrow> oss_call list \<Rightarrow> (error + unit) \<times> oss_call list"
where
  "put_object_from_file srv h k local_file tr =
     (case put_raises srv tr h k local_file of
        Some msg \<Rightarrow> (Inl (StorageError msg), tr @ [PutObjectFromFile h k local_file])
      | None \<Rightarrow> (Inr (), tr @ [PutObjectFromFile h k local_file]))"

definition get_object_to_file ::
  "oss_service \<Rightarrow> bucket_handle \<Rightarrow> string \<Rightarrow> string \<Rightarrow> oss_call list \<Rightarrow> (error + unit) \<times> oss_call list"
where
  "get_object_to_file srv h k local_path tr =
     (case get_raises srv tr h k local_path of
        Some msg \<Rightarrow> (Inl (StorageError msg), tr @ [GetObjectToFile h k local_path])
      | None \<Rightarrow> (Inr (), tr @ [GetObjectToFile h k local_path]))"

definition list_objects ::
  "oss_service \<Rightarrow> bucket_handle \<Rightarrow> string \<Rightarrow> string \<Rightarrow> oss_call list \<Rightarrow> (error + list_result) \<times> oss_call list"
where
  "list_objects srv h pfx delimiter tr =
     (case list_answer srv tr h pfx delimiter of
        Inl msg \<Rightarrow> (Inl (StorageError msg), tr @ [ListObjects h pfx delimiter])
      | Inr res \<Rightarrow> (Inr res, tr @ [ListObjects h pfx delimiter]))"

subsection \<open>The repository object\<close>

text \<open>
  The attributes of an \<open>AliyunOssArtifactRepository\<close>. \<open>None\<close> in \<open>auth\<close>,
  \<open>oss_endpoint_url\<close> and \<open>is_plugin\<close> is an attribute that was never set (the
  constructor returns early when a bucket is injected); \<open>None\<close> in \<open>oss_bucket\<close> is
  Python's \<open>None\<close>.
\<close>

record repo =
  artifact_uri :: string
  experiment_id :: "string option"
  run_id :: "string option"
  auth :: "oss_auth option"
  oss_endpoint_url :: "string option"
  oss_bucket :: "bucket_handle option"
  is_plugin :: "bool option"

definition init_repo ::
  "environment \<Rightarrow> string \<Rightarrow> string option \<Rightarrow> string option \<Rightarrow> bucket_handle option \<Rightarrow> error + repo"
where
  \<comment> \<open>\<open>__init__(self, artifact_uri, experiment_id, run_id, oss_bucket)\<close>\<close>
  "init_repo env uri eid rid injected =
     (let r0 = \<lparr>artifact_uri = uri, experiment_id = eid, run_id = rid, auth = None,
                oss_endpoint_url = None, oss_bucket = None, is_plugin = None\<rparr>
      in case injected of
        Some h \<Rightarrow> Inr (r0\<lparr>oss_bucket := Some h\<rparr>)
      | None \<Rightarrow>
          (case environ env ''MLFLOW_OSS_ENDPOINT_URL'' of
             None \<Rightarrow> Inl MissingEndpoint
           | Some url \<Rightarrow>
               if url = [] then Inl MissingEndpoint
               else
                 let key_id = environ env ''MLFLOW_OSS_KEY_ID'';
                     key_secret = environ env ''MLFLOW_OSS_KEY_SECRET'';
                     a = (case (key_id, key_secret) of
                            (Some i, Some k) \<Rightarrow>
                              if i \<noteq> [] \<and> k \<noteq> [] then Some (Auth i k)
                              else if default_credentials env then Some ProviderAuth else None
                          | _ \<Rightarrow> if default_credentials env then Some ProviderAuth else None)
                 in case a of
                      None \<Rightarrow> Inl MissingCredentials
                    | Some au \<Rightarrow>
                        Inr (r0\<lparr>auth := Some au, oss_endpoint_url := Some url,
                                 oss_bucket := None, is_plugin := Some True\<rparr>)))"

definition get_oss_bucket :: "repo \<Rightarrow> string \<Rightarrow> (error + bucket_handle) \<times> repo" where
  \<comment> \<open>\<open>_get_oss_bucket(self, bucket)\<close>: the result and the repository afterwards\<close>
  "get_oss_bucket r bucket =
     (case oss_bucket r of
        Some h \<Rightarrow> (Inr h, r)
      | None \<Rightarrow>
          (case (auth r, oss_endpoint_url r) of
             (Some a, Some e) \<Rightarrow>
               (let h = \<lparr>handle_auth = a, handle_endpoint = e, handle_name = bucket\<rparr>
                in (Inr h, r\<lparr>oss_bucket := Some h\<rparr>))
           | _ \<Rightarrow> (Inl AttributeError, r)))"

subsection \<open>Uploads and download\<close>

text \<open>
  Every operation takes the repository and the calls made so far, and returns its
  result (or the exception), the repository and the calls afterwards. An optional
  argument is \<open>None\<close> when it is left out.
\<close>

definition log_artifact ::
  "environment \<Rightarrow> oss_service \<Rightarrow> repo \<Rightarrow> oss_call list \<Rightarrow> string \<Rightarrow> string option
     \<Rightarrow> (error + unit) \<times> repo \<times> oss_call list"
where
  "log_artifact env srv r tr local_file artifact_path =
     (case parse_oss_uri env (artifact_uri r) of
        Inl e \<Rightarrow> (Inl e, r, tr)
      | Inr (bucket, dest_path0) \<Rightarrow>
          let dest_path1 = (case artifact_path of
                              None \<Rightarrow> dest_path0
                            | Some ap \<Rightarrow> if ap \<noteq> [] then posix_join dest_path0 ap else dest_path0);
              dest_path = posix_join dest_path1 (basename local_file)
          in case get_oss_bucket r bucket of
               (Inl e, r') \<Rightarrow> (Inl e, r', tr)
             | (Inr h, r') \<Rightarrow>
                 (case put_object_from_file srv h dest_path local_file tr of
                    (res, tr') \<Rightarrow> (res, r', tr')))"

definition download_file ::
  "environment \<Rightarrow> oss_service \<Rightarrow> repo \<Rightarrow> oss_call list \<Rightarrow> string \<Rightarrow> string
     \<Rightarrow> (error + unit) \<times> repo \<times> oss_call list"
where
  \<comment> \<open>\<open>_download_file(self, remote_file_path, local_path)\<close>\<close>
  "download_file env srv r tr remote_file_path local_path =
     (case parse_oss_uri env (artifact_uri r) of
        Inl e \<Rightarrow> (Inl e, r, tr)
      | Inr (bucket, oss_root_path) \<Rightarrow>
          let oss_full_path = posix_join oss_root_path remote_file_path
          in case get_oss_bucket r bucket of
               (Inl e, r') \<Rightarrow> (Inl e, r', tr)
             | (Inr h, r') \<Rightarrow>
                 (case get_object_to_file srv h oss_full_path local_path tr of
                    (res, tr') \<Rightarrow> (res, r', tr')))"

definition delete_artifacts ::
  "environment \<Rightarrow> oss_service \<Rightarrow> repo \<Rightarrow> oss_call list \<Rightarrow> string option
     \<Rightarrow> (error + unit) \<times> repo \<times> oss_call list"
where
  "delete_artifacts env srv r tr artifact_path = (Inl NotImplemented, r, tr)"

subsection \<open>Directory upload\<close>

fun os_walk :: "string \<Rightarrow> fstree \<Rightarrow> (string \<times> string list \<times> string list) list" where
  \<comment> \<open>\<open>os.walk(top)\<close>, top down: \<open>(root, dirnames, filenames)\<close> of every directory\<close>
  "os_walk top_dir (Dir fs ds) =
     (top_dir, map fst ds, fs) # concat (map (\<lambda>(d, t). os_walk (posix_join top_dir d) t) ds)"

fun put_files ::
  "oss_service \<Rightarrow> bucket_handle \<Rightarrow> string \<Rightarrow> string \<Rightarrow> string list \<Rightarrow> oss_call list
     \<Rightarrow> (error + unit) \<times> oss_call list"
where
  \<comment> \<open>the inner loop \<open>for f in filenames\<close>\<close>
  "put_files srv h upload_path root [] tr = (Inr (), tr)"
| "put_files srv h upload_path root (f # fs) tr =
     (case put_object_from_file srv h (posix_join upload_path f) (posix_join root f) tr of
        (Inl e, tr') \<Rightarrow> (Inl e, tr')
      | (Inr _, tr') \<Rightarrow> put_files srv h upload_path root fs tr')"

fun walk_loop ::
  "environment \<Rightarrow> oss_service \<Rightarrow> bucket_handle \<Rightarrow> string \<Rightarrow> string
     \<Rightarrow> (string \<times> string list \<times> string list) list \<Rightarrow> oss_call list
     \<Rightarrow> (error + unit) \<times> oss_call list"
where
  \<comment> \<open>the outer loop \<open>for root, _, filenames in os.walk(local_dir)\<close>\<close>
  "walk_loop env srv h dest_path local_dir [] tr = (Inr (), tr)"
| "walk_loop env srv h dest_path local_dir ((root, _, fnames) # rest) tr =
     (case (if root \<noteq> local_dir
            then (case relpath env root local_dir of
                    Inl e \<Rightarrow> Inl e
                  | Inr rel_path \<Rightarrow> Inr (posix_join dest_path rel_path))
            else Inr dest_path) of
        Inl e \<Rightarrow> (Inl e, tr)
      | Inr upload_path \<Rightarrow>
          (case put_files srv h upload_path root fnames tr of
             (Inl e, tr') \<Rightarrow> (Inl e, tr')
           | (Inr _, tr') \<Rightarrow> walk_loop env srv h dest_path local_dir rest tr'))"

definition log_artifacts ::
  "environment \<Rightarrow> oss_service \<Rightarrow> repo \<Rightarrow> oss_call list \<Rightarrow> string \<Rightarrow> string option
     \<Rightarrow> (error + unit) \<times> repo \<times> oss_call list"
where
  "log_artifacts env srv r tr local_dir0 artifact_path =
     (case parse_oss_uri env (artifact_uri r) of
        Inl e \<Rightarrow> (Inl e, r, tr)
      | Inr (bucket, dest_path0) \<Rightarrow>
          let dest_path = (case artifact_path of
                             None \<Rightarrow> dest_path0
                           | Some ap \<Rightarrow> if ap \<noteq> [] then posix_join dest_path0 ap else dest_path0)
          in case get_oss_bucket r bucket of
               (Inl e, r') \<Rightarrow> (Inl e, r', tr)
             | (Inr h, r') \<Rightarrow>
                 let local_dir = abspath env local_dir0;
                     walk = (case local_dirs env local_dir of
                               None \<Rightarrow> []
                             | Some t \<Rightarrow> os_walk local_dir t)
                 in case walk_loop env srv h dest_path local_dir walk tr of
                      (res, tr') \<Rightarrow> (res, r', tr'))"

subsection \<open>Listing\<close>

record FileInfo =
  \<comment> \<open>mlflow's \<open>FileInfo(path, is_dir, file_size)\<close>\<close>
  file_path :: string
  is_dir :: bool
  file_size :: "int option"

definition verify_listed_object_contains_artifact_path_prefix ::
  "string \<Rightarrow> string \<Rightarrow> error + unit"
where
  "verify_listed_object_contains_artifact_path_prefix listed_object_path artifact_path =
     (if \<not> startswith listed_object_path artifact_path
      then Inl (ObjectPathMismatch artifact_path listed_object_path)
      else Inr ())"

fun list_files :: "environment \<Rightarrow> string \<Rightarrow> object_info list \<Rightarrow> FileInfo list \<Rightarrow> error + FileInfo list" where
  \<comment> \<open>the loop \<open>for obj in results.object_list\<close>, \<open>infos\<close> the list built so far\<close>
  "list_files env artifact_path [] infos = Inr infos"
| "list_files env artifact_path (obj # objs) infos =
     (case verify_listed_object_contains_artifact_path_prefix (obj_key obj) artifact_path of
        Inl e \<Rightarrow> Inl e
      | Inr _ \<Rightarrow>
          (case relpath env (obj_key obj) artifact_path of
             Inl e \<Rightarrow> Inl e
           | Inr file_rel_path \<Rightarrow>
               list_files env artifact_path objs
                 (infos @ [\<lparr>file_path = file_rel_path, is_dir = False,
                            file_size = Some (obj_size obj)\<rparr>])))"

fun list_dirs :: "environment \<Rightarrow> string \<Rightarrow> string list \<Rightarrow> FileInfo list \<Rightarrow> error + FileInfo list" where
  \<comment> \<open>the loop \<open>for subdir_path in results.prefix_list\<close>\<close>
  "list_dirs env artifact_path [] infos = Inr infos"
| "list_dirs env artifact_path (subdir_path # ps) infos =
     (case verify_listed_object_contains_artifact_path_prefix subdir_path artifact_path of
        Inl e \<Rightarrow> Inl e
      | Inr _ \<Rightarrow>
          (case relpath env subdir_path artifact_path of
             Inl e \<Rightarrow> Inl e
           | Inr subdir_rel_path \<Rightarrow>
               list_dirs env artifact_path ps
                 (infos @ [\<lparr>file_path = subdir_rel_path, is_dir = True, file_size = None\<rparr>])))"

definition list_artifacts ::
  "environment \<Rightarrow> oss_service \<Rightarrow> repo \<Rightarrow> oss_call list \<Rightarrow> string option
     \<Rightarrow> (error + FileInfo list) \<times> repo \<times> oss_call list"
where
  "list_artifacts env srv r tr path_arg =
     (case parse_oss_uri env (artifact_uri r) of
        Inl e \<Rightarrow> (Inl e, r, tr)
      | Inr (bucket, artifact_path) \<Rightarrow>
          let dest_path = (case path_arg of
                             None \<Rightarrow> artifact_path
                           | Some p \<Rightarrow> if p \<noteq> [] then posix_join artifact_path p else artifact_path);
              pfx = (if dest_path \<noteq> [] then dest_path @ ''/'' else [])
          in case get_oss_bucket r bucket of
               (Inl e, r') \<Rightarrow> (Inl e, r', tr)
             | (Inr h, r') \<Rightarrow>
                 (case list_objects srv h pfx ''/'' tr of
                    (Inl e, tr') \<Rightarrow> (Inl e, r', tr')
                  | (Inr results, tr') \<Rightarrow>
                      (case list_files env artifact_path (object_list results) [] of
                         Inl e \<Rightarrow> (Inl e, r', tr')
                       | Inr infos1 \<Rightarrow>
                           (case list_dirs env artifact_path (prefix_list results) infos1 of
                              Inl e \<Rightarrow> (Inl e, r', tr')
                            | Inr infos \<Rightarrow> (Inr (sort_key file_path infos), r', tr')))))"

section \<open>What the operations are meant to do\<close>

text \<open>
  The definitions of this section are not taken from the code: they state what the
  properties below compare the code with.
\<close>

fun get_oss_buckets :: "repo \<Rightarrow> string list \<Rightarrow> (error + bucket_handle) list \<times> repo" where
  \<comment> \<open>successive calls of \<open>_get_oss_bucket\<close>, one for each bucket name of the list\<close>
  "get_oss_buckets r [] = ([], r)"
| "get_oss_buckets r (b # bs) =
     (case get_oss_bucket r b of
        (res, r') \<Rightarrow> (case get_oss_buckets r' bs of (ress, r'') \<Rightarrow> (res # ress, r'')))"

subsection \<open>Names of directory entries\<close>

definition clean_name :: "string \<Rightarrow> bool" where
  \<comment> \<open>a path component that names an entry: not empty, not \<open>.\<close> or \<open>..\<close>, without \<open>/\<close>\<close>
  "clean_name c = (c \<noteq> [] \<and> c \<noteq> ''.'' \<and> c \<noteq> ''..'' \<and> CHR ''/'' \<notin> set c)"

fun clean_tree :: "fstree \<Rightarrow> bool" where
  \<comment> \<open>every directory of the tree has a name that a directory entry can have\<close>
  "clean_tree (Dir fs subs) = list_all (\<lambda>(d, t). clean_name d \<and> clean_tree t) subs"

subsection \<open>The uploads a directory tree calls for\<close>

text \<open>
  \<open>tree_files\<close> lists the files of a tree in the order of the walk, each with the
  names of the directories that lead to it from the root of the walk. \<open>upload_key\<close>
  is the key of such a file: the join of the effective root, the relative directory
  path and the file name, and the join of the effective root and the file name for a
  file of the root. \<open>put_all\<close> makes a list of uploads in order and stops at the
  first one that the storage refuses.
\<close>

fun tree_files :: "string list \<Rightarrow> fstree \<Rightarrow> (string list \<times> string) list" where
  "tree_files ds (Dir fs subs) =
     map (\<lambda>f. (ds, f)) fs @ concat (map (\<lambda>(d, t). tree_files (ds @ [d]) t) subs)"

definition upload_key :: "string \<Rightarrow> string list \<Rightarrow> string \<Rightarrow> string" where
  "upload_key effective_root ds f =
     (if ds = [] then posix_join effective_root f
      else posix_join (posix_join effective_root (join_sep ''/'' ds)) f)"

fun put_all ::
  "oss_service \<Rightarrow> bucket_handle \<Rightarrow> (string \<times> string) list \<Rightarrow> oss_call list
     \<Rightarrow> (error + unit) \<times> oss_call list"
where
  "put_all srv h [] tr = (Inr (), tr)"
| "put_all srv h ((k, f) # kfs) tr =
     (case put_object_from_file srv h k f tr of
        (Inl e, tr') \<Rightarrow> (Inl e, tr')
      | (Inr _, tr') \<Rightarrow> put_all srv h kfs tr')"

section \<open>A concrete setting\<close>

text \<open>
  An environment, a repository and storage services on which the properties below are
  exercised: the working directory is \<open>/home/u\<close>, which holds the directory
  \<open>root/{f1.txt, sub/f2.txt}\<close>, and the environment variables name an endpoint and
  a key pair.
\<close>

definition example_env :: environment where
  "example_env =
     \<lparr>getcwd = ''/home/u'',
      environ = (\<lambda>v. if v = ''MLFLOW_OSS_ENDPOINT_URL'' then Some ''oss-cn-x.example.com''
                      else if v = ''MLFLOW_OSS_KEY_ID'' then Some ''id''
                      else if v = ''MLFLOW_OSS_KEY_SECRET'' then Some ''secret''
                      else None),
      default_credentials = False,
      local_dirs = (\<lambda>p. if p = ''/home/u/root''
                         then Some (Dir [''f1.txt''] [(''sub'', Dir [''f2.txt''] [])])
                         else None),
      bracketed_host_ok = (\<lambda>_. True),
      nfkc_netloc_ok = (\<lambda>_. True)\<rparr>"

definition example_handle :: bucket_handle where
  "example_handle =
     \<lparr>handle_auth = Auth ''id'' ''secret'', handle_endpoint = ''oss-cn-x.example.com'',
      handle_name = ''mybucket''\<rparr>"

definition example_repo :: "string \<Rightarrow> repo" where
  \<comment> \<open>the repository that \<open>__init__\<close> builds for a URI in \<open>example_env\<close>\<close>
  "example_repo uri =
     \<lparr>artifact_uri = uri, experiment_id = None, run_id = None,
      auth = Some (Auth ''id'' ''secret''), oss_endpoint_url = Some ''oss-cn-x.example.com'',
      oss_bucket = None, is_plugin = Some True\<rparr>"

definition example_service :: oss_service where
  \<comment> \<open>a storage that never raises and lists two objects and one common prefix under \<open>run/\<close>\<close>
  "example_service =
     \<lparr>put_raises = (\<lambda>_ _ _ _. None),
      get_raises = (\<lambda>_ _ _ _. None),
      list_answer = (\<lambda>_ _ pfx _.
         if pfx = ''run/''
         then Inr \<lparr>object_list = [\<lparr>obj_key = ''run/b.txt'', obj_size = 20\<rparr>,
                                   \<lparr>obj_key = ''run/a.txt'', obj_size = 10\<rparr>],
                    prefix_list = [''run/sub/'']\<rparr>
         else Inr \<lparr>object_list = [], prefix_list = []\<rparr>)\<rparr>"

definition stray_service :: oss_service where
  \<comment> \<open>a storage that lists a key outside \<open>run\<close> under \<open>run/\<close>, and under \<open>run/sub/\<close> a key
      that is under \<open>run\<close> only\<close>
  "stray_service =
     \<lparr>put_raises = (\<lambda>_ _ _ _. None),
      get_raises = (\<lambda>_ _ _ _. None),
      list_answer = (\<lambda>_ _ pfx _.
         if pfx = ''run/sub/''
         then Inr \<lparr>object_list = [\<lparr>obj_key = ''run/other.txt'', obj_size = 5\<rparr>], prefix_list = []\<rparr>
         else Inr \<lparr>object_list = [\<lparr>obj_key = ''run/a.txt'', obj_size = 10\<rparr>,
                                   \<lparr>obj_key = ''elsewhere/x'', obj_size = 7\<rparr>],
                    prefix_list = [''run/sub/'']\<rparr>)\<rparr>"

definition absolute_service :: oss_service where
  \<comment> \<open>a storage that holds one object, \<open>/other/a.txt\<close>, and honours the prefix of a query\<close>
  "absolute_service =
     \<lparr>put_raises = (\<lambda>_ _ _ _. None),
      get_raises = (\<lambda>_ _ _ _. None),
      list_answer = (\<lambda>_ _ pfx _.
         Inr \<lparr>object_list = filter (\<lambda>obj. startswith (obj_key obj) pfx)
                                [\<lparr>obj_key = ''/other/a.txt'', obj_size = 3\<rparr>],
               prefix_list = []\<rparr>)\<rparr>"

section \<open>Properties of the URI resolver\<close>

lemma urlsplit_oss:
  assumes clean: "\<forall>c \<in> set (bucket @ p).
                    c \<notin> set [CHR 0x09, CHR 0x0A, CHR 0x0D, CHR ''?'', CHR ''#'']"
      and host: "\<forall>c \<in> set bucket. c \<notin> set ''/[]''"
      and ascii: "is_ascii bucket"
      and rooted: "p = [] \<or> startswith p ''/''"
  shows "urlsplit env (''oss://'' @ bucket @ p) =
           Inr \<lparr>scheme = ''oss'', netloc = bucket, path = p, params = [],
                 query = [], fragment = []\<rparr>"
proof -
  have f0: "filter (\<lambda>c. c \<notin> set [CHR 0x09, CHR 0x0A, CHR 0x0D]) (bucket @ p) = bucket @ p"
    using clean by (intro filter_True) auto
  have d: "dropWhile (\<lambda>c. of_char c \<le> (32::nat)) (''oss://'' @ bucket @ p)
             = ''oss://'' @ bucket @ p"
    by simp
  have f: "filter (\<lambda>c. c \<notin> set [CHR 0x09, CHR 0x0A, CHR 0x0D]) (''oss://'' @ bucket @ p)
             = ''oss://'' @ bucket @ p"
    using f0 by simp
  have b: "\<forall>c \<in> set bucket. c \<notin> set ''/?#''"
    using clean host by auto
  have p0: "takeWhile (\<lambda>c. c \<notin> set ''/?#'') p = []"
           "dropWhile (\<lambda>c. c \<notin> set ''/?#'') p = p"
    using rooted by (cases p; simp add: startswith_def)+
  have tw: "takeWhile (\<lambda>c. c \<notin> set ''/?#'') (bucket @ p) = bucket"
    using b p0 by (simp add: takeWhile_append2)
  have dw: "dropWhile (\<lambda>c. c \<notin> set ''/?#'') (bucket @ p) = p"
    using b p0 by (simp add: dropWhile_append2)
  have nl: "splitnetloc (''//'' @ bucket @ p) = (bucket, p)"
    using tw dw by (simp add: splitnetloc_def)
  have t2: "take 2 (''//'' @ bucket @ p) = ''//''"
    by simp
  have br: "CHR ''['' \<notin> set bucket" "CHR '']'' \<notin> set bucket"
    using host by auto
  have h: "CHR ''#'' \<notin> set p" "CHR ''?'' \<notin> set p"
    using clean by auto
  have bf: "before_first CHR ''#'' p = p" "before_first CHR ''?'' p = p"
    using h by (auto simp add: before_first_def takeWhile_eq_all_conv)
  have sch: "split_scheme (''oss://'' @ bucket @ p) = (''oss'', ''//'' @ bucket @ p)"
    by (simp add: split_scheme_def before_first_def after_first_def is_ascii_alpha_def
        scheme_chars_def lower_char_def Let_def)
  show ?thesis
    unfolding urlsplit_def d f sch Let_def prod.case t2 nl
    using br h bf ascii by simp
qed

lemma parse_oss_uri_of_parts:
  assumes "\<forall>c \<in> set (bucket @ p).
             c \<notin> set [CHR 0x09, CHR 0x0A, CHR 0x0D, CHR ''?'', CHR ''#'']"
      and "\<forall>c \<in> set bucket. c \<notin> set ''/[]''"
      and "is_ascii bucket"
      and "p = [] \<or> startswith p ''/''"
  shows "parse_oss_uri env (''oss://'' @ bucket @ p) = Inr (bucket, drop 1 p)"
proof -
  have "urlparse env (''oss://'' @ bucket @ p) =
          Inr \<lparr>scheme = ''oss'', netloc = bucket, path = p, params = [],
                query = [], fragment = []\<rparr>"
    unfolding urlparse_def urlsplit_oss [OF assms] by (simp add: uses_params_def)
  then show ?thesis
    using assms(4) by (auto simp: parse_oss_uri_def Let_def)
qed

lemmas uri_eval =
  parse_oss_uri_def urlparse_def urlsplit_def split_scheme_def splitnetloc_def
  before_first_def after_first_def is_ascii_alpha_def scheme_chars_def lower_char_def
  uses_params_def is_ascii_def startswith_def Let_def

lemma parse_oss_uri_example_run:
  "parse_oss_uri env ''oss://mybucket/path/to/run'' = Inr (''mybucket'', ''path/to/run'')"
  by (simp add: uri_eval)

lemma parse_oss_uri_example_bare:
  "parse_oss_uri env ''oss://mybucket'' = Inr (''mybucket'', [])"
  by (simp add: uri_eval)

lemma parse_oss_uri_example_raw:
  "parse_oss_uri env ''oss://mybucket//a/./b/../c//'' = Inr (''mybucket'', ''/a/./b/../c//'')"
  by (simp add: uri_eval)

lemma parse_oss_uri_example_s3:
  "parse_oss_uri env ''s3://mybucket/x'' = Inl (InvalidURIScheme ''s3://mybucket/x'')"
  by (simp add: uri_eval)

text \<open>
  C3. When the parsed scheme is \<open>oss\<close>, \<open>parse_oss_uri\<close> returns the network location
  as it is and the path with one leading \<open>/\<close> removed when there is one, and nothing else
  changed. So \<open>oss://\<close> followed by a bucket and a path gives back that bucket and the
  path less its first slash: further slashes, trailing slashes and dot segments stay. In
  particular \<open>oss://mybucket/path/to/run\<close> gives \<open>(mybucket, path/to/run)\<close> and
  \<open>oss://mybucket\<close> gives \<open>(mybucket, "")\<close>.
\<close>

theorem parse_oss_uri_bucket_and_prefix:
  "(\<forall>parsed. urlparse env uri = Inr parsed \<longrightarrow> scheme parsed = ''oss'' \<longrightarrow>
      parse_oss_uri env uri =
        Inr (netloc parsed,
             case path parsed of
               [] \<Rightarrow> []
             | c # rest \<Rightarrow> if c = CHR ''/'' then rest else c # rest))
   \<and> ((\<forall>c \<in> set (bucket @ p). c \<notin> set [CHR 0x09, CHR 0x0A, CHR 0x0D, CHR ''?'', CHR ''#''])
        \<and> (\<forall>c \<in> set bucket. c \<notin> set ''/[]'') \<and> is_ascii bucket
        \<and> (p = [] \<or> startswith p ''/'')
      \<longrightarrow> parse_oss_uri env (''oss://'' @ bucket @ p) = Inr (bucket, drop 1 p))
   \<and> parse_oss_uri env ''oss://mybucket/path/to/run'' = Inr (''mybucket'', ''path/to/run'')
   \<and> parse_oss_uri env ''oss://mybucket'' = Inr (''mybucket'', [])
   \<and> parse_oss_uri env ''oss://mybucket//a/./b/../c//'' = Inr (''mybucket'', ''/a/./b/../c//'')"
proof (intro conjI allI impI)
  fix parsed
  assume "urlparse env uri = Inr parsed" and "scheme parsed = ''oss''"
  then show "parse_oss_uri env uri =
        Inr (netloc parsed,
             case path parsed of
               [] \<Rightarrow> []
             | c # rest \<Rightarrow> if c = CHR ''/'' then rest else c # rest)"
    by (cases "path parsed") (simp_all add: parse_oss_uri_def startswith_def Let_def)
next
  assume "(\<forall>c \<in> set (bucket @ p). c \<notin> set [CHR 0x09, CHR 0x0A, CHR 0x0D, CHR ''?'', CHR ''#''])
        \<and> (\<forall>c \<in> set bucket. c \<notin> set ''/[]'') \<and> is_ascii bucket
        \<and> (p = [] \<or> startswith p ''/'')"
  then show "parse_oss_uri env (''oss://'' @ bucket @ p) = Inr (bucket, drop 1 p)"
    by (intro parse_oss_uri_of_parts) blast+
qed (rule parse_oss_uri_example_run parse_oss_uri_example_bare parse_oss_uri_example_raw)+

theorem parse_oss_uri_bucket_and_prefix_witness:
  "urlparse example_env ''oss://b1/k/'' =
     Inr \<lparr>scheme = ''oss'', netloc = ''b1'', path = ''/k/'', params = [],
           query = [], fragment = []\<rparr>
   \<and> parse_oss_uri example_env ''oss://b1/k/'' = Inr (''b1'', ''k/'')
   \<and> parse_oss_uri example_env (''oss://'' @ ''b2'' @ ''//x/../y'') = Inr (''b2'', ''/x/../y'')"
proof -
  have u: "urlparse example_env ''oss://b1/k/'' =
     Inr \<lparr>scheme = ''oss'', netloc = ''b1'', path = ''/k/'', params = [],
           query = [], fragment = []\<rparr>"
    by (simp add: uri_eval)
  have c: "(\<forall>c \<in> set (''b2'' @ ''//x/../y'').
              c \<notin> set [CHR 0x09, CHR 0x0A, CHR 0x0D, CHR ''?'', CHR ''#''])
        \<and> (\<forall>c \<in> set ''b2''. c \<notin> set ''/[]'') \<and> is_ascii ''b2''
        \<and> (''//x/../y'' = [] \<or> startswith ''//x/../y'' ''/'')"
    by (simp add: is_ascii_def startswith_def)
  note t = parse_oss_uri_bucket_and_prefix
             [of example_env "''oss://b1/k/''" "''b2''" "''//x/../y''"]
  from t u have "parse_oss_uri example_env ''oss://b1/k/'' = Inr (''b1'', ''k/'')"
    by simp
  moreover from t c
  have "parse_oss_uri example_env (''oss://'' @ ''b2'' @ ''//x/../y'') = Inr (''b2'', ''/x/../y'')"
    by simp
  ultimately show ?thesis using u by blast
qed

text \<open>
  C7. When the parsed scheme is not \<open>oss\<close>, \<open>parse_oss_uri\<close> raises the exception
  "Not an OSS URI" carrying the URI; it is a function of its argument and the
  environment only, so it does nothing else. In particular \<open>s3://mybucket/x\<close> is
  refused.
\<close>

theorem parse_oss_uri_rejects_other_schemes:
  "(\<forall>parsed. urlparse env uri = Inr parsed \<longrightarrow> scheme parsed \<noteq> ''oss'' \<longrightarrow>
      parse_oss_uri env uri = Inl (InvalidURIScheme uri))
   \<and> parse_oss_uri env ''s3://mybucket/x'' = Inl (InvalidURIScheme ''s3://mybucket/x'')"
  by (simp add: parse_oss_uri_def parse_oss_uri_example_s3 [unfolded parse_oss_uri_def])

theorem parse_oss_uri_rejects_other_schemes_witness:
  "urlparse example_env ''http://h/a;b?q#f'' =
     Inr \<lparr>scheme = ''http'', netloc = ''h'', path = ''/a'', params = ''b'',
           query = ''q'', fragment = ''f''\<rparr>
   \<and> parse_oss_uri example_env ''http://h/a;b?q#f'' = Inl (InvalidURIScheme ''http://h/a;b?q#f'')"
proof -
  have u: "urlparse example_env ''http://h/a;b?q#f'' =
     Inr \<lparr>scheme = ''http'', netloc = ''h'', path = ''/a'', params = ''b'',
           query = ''q'', fragment = ''f''\<rparr>"
    by (simp add: uri_eval splitparams_def basename_def)
  from parse_oss_uri_rejects_other_schemes [of example_env "''http://h/a;b?q#f''"] u
  have "parse_oss_uri example_env ''http://h/a;b?q#f'' = Inl (InvalidURIScheme ''http://h/a;b?q#f'')"
    by simp
  with u show ?thesis by blast
qed

section \<open>Properties of deletion\<close>

text \<open>
  C8. Whatever the sub-path argument, also when it is left out, \<open>delete_artifacts\<close>
  raises the "not implemented" exception; the repository is unchanged and no call is made
  on the storage.
\<close>

theorem delete_artifacts_not_implemented:
  "delete_artifacts env srv r tr artifact_path = (Inl NotImplemented, r, tr)"
  by (simp add: delete_artifacts_def)

section \<open>Paths and storage calls\<close>

lemma startswith_slash: "startswith s ''/'' \<longleftrightarrow> (s \<noteq> [] \<and> hd s = CHR ''/'')"
  by (cases s) (auto simp: startswith_def)

lemma endswith_slash: "endswith s ''/'' \<longleftrightarrow> (s \<noteq> [] \<and> last s = CHR ''/'')"
proof (cases s rule: rev_cases)
  case Nil
  then show ?thesis by (simp add: endswith_def)
next
  case (snoc ys y)
  then show ?thesis by (simp add: endswith_def)
qed

lemma posix_join_abs: "startswith b ''/'' \<Longrightarrow> posix_join a b = b"
  by (simp add: posix_join_def)

lemma posix_join_rel:
  "a \<noteq> [] \<Longrightarrow> \<not> endswith a ''/'' \<Longrightarrow> \<not> startswith b ''/'' \<Longrightarrow> posix_join a b = a @ ''/'' @ b"
  by (simp add: posix_join_def)

lemma basename_no_slash: "CHR ''/'' \<notin> set (basename f)"
  using set_takeWhileD [of "CHR ''/''" "\<lambda>c. c \<noteq> CHR ''/''" "rev f"] by (auto simp: basename_def)

lemma basename_not_abs: "\<not> startswith (basename f) ''/''"
  using basename_no_slash [of f] by (cases "basename f") (auto simp: startswith_def)

lemma put_object_from_file_calls:
  "snd (put_object_from_file srv h k f tr) = tr @ [PutObjectFromFile h k f]"
  by (simp add: put_object_from_file_def split: option.splits)

lemma get_object_to_file_calls:
  "snd (get_object_to_file srv h k f tr) = tr @ [GetObjectToFile h k f]"
  by (simp add: get_object_to_file_def split: option.splits)

lemma list_objects_calls:
  "snd (list_objects srv h k d tr) = tr @ [ListObjects h k d]"
  by (simp add: list_objects_def split: sum.splits)

lemma log_artifact_calls:
  assumes "parse_oss_uri env (artifact_uri r) = Inr (b, ap)"
      and "get_oss_bucket r b = (Inr h, r')"
  shows "snd (snd (log_artifact env srv r tr f sub)) =
           tr @ [PutObjectFromFile h
                   (posix_join (case sub of None \<Rightarrow> ap
                                | Some s \<Rightarrow> if s \<noteq> [] then posix_join ap s else ap)
                      (basename f)) f]"
  using assms by (simp add: log_artifact_def Let_def case_prod_beta put_object_from_file_calls)

lemma download_file_calls:
  assumes "parse_oss_uri env (artifact_uri r) = Inr (b, ap)"
      and "get_oss_bucket r b = (Inr h, r')"
  shows "snd (snd (download_file env srv r tr remote lp)) =
           tr @ [GetObjectToFile h (posix_join ap remote) lp]"
  using assms by (simp add: download_file_def Let_def case_prod_beta get_object_to_file_calls)

lemma list_artifacts_calls:
  assumes "parse_oss_uri env (artifact_uri r) = Inr (b, ap)"
      and "get_oss_bucket r b = (Inr h, r')"
  shows "snd (snd (list_artifacts env srv r tr sub)) =
           tr @ [ListObjects h
                   (let dest_path = (case sub of None \<Rightarrow> ap
                                     | Some s \<Rightarrow> if s \<noteq> [] then posix_join ap s else ap)
                    in if dest_path \<noteq> [] then dest_path @ ''/'' else [])
                   ''/'']"
proof -
  define pfx where "pfx = (let dest_path = (case sub of None \<Rightarrow> ap
                                     | Some s \<Rightarrow> if s \<noteq> [] then posix_join ap s else ap)
                    in if dest_path \<noteq> [] then dest_path @ ''/'' else [])"
  obtain res tr' where lo: "list_objects srv h pfx ''/'' tr = (res, tr')"
    by (cases "list_objects srv h pfx ''/'' tr")
  then have tr': "tr' = tr @ [ListObjects h pfx ''/'']"
    using list_objects_calls [of srv h pfx "''/''" tr] by simp
  have "snd (snd (list_artifacts env srv r tr sub)) = tr'"
    using assms lo unfolding list_artifacts_def pfx_def Let_def
    by (simp split: sum.splits)
  then show ?thesis
    unfolding tr' pfx_def .
qed

lemma init_repo_example: "init_repo example_env uri None None None = Inr (example_repo uri)"
  by (simp add: init_repo_def example_env_def example_repo_def)

lemmas example_eval =
  example_env_def example_repo_def example_service_def example_handle_def
  get_oss_bucket_def posix_join_def basename_def endswith_def startswith_def Let_def
  put_object_from_file_def get_object_to_file_def list_objects_def

lemma get_oss_bucket_example:
  "get_oss_bucket (example_repo uri) ''mybucket'' =
     (Inr example_handle, (example_repo uri)\<lparr>oss_bucket := Some example_handle\<rparr>)"
  by (simp add: example_eval)

section \<open>Properties of the bucket handle\<close>

lemma get_oss_bucket_stored:
  "oss_bucket r = Some h \<Longrightarrow> get_oss_bucket r b = (Inr h, r)"
  by (simp add: get_oss_bucket_def)

lemma get_oss_bucket_stores:
  "get_oss_bucket r b = (Inr h, r') \<Longrightarrow> oss_bucket r' = Some h"
  by (auto simp: get_oss_bucket_def Let_def split: option.splits)

lemma get_oss_buckets_stored:
  "oss_bucket r = Some h \<Longrightarrow> get_oss_buckets r bs = (map (\<lambda>_. Inr h) bs, r)"
  by (induction bs) (simp_all add: get_oss_bucket_stored)

lemma log_artifact_repo:
  "oss_bucket r = Some h \<Longrightarrow> fst (snd (log_artifact env srv r tr f sub)) = r"
  by (simp add: log_artifact_def Let_def get_oss_bucket_stored case_prod_beta split: sum.splits)

lemma download_file_repo:
  "oss_bucket r = Some h \<Longrightarrow> fst (snd (download_file env srv r tr remote lp)) = r"
  by (simp add: download_file_def Let_def get_oss_bucket_stored case_prod_beta split: sum.splits)

lemma log_artifacts_repo:
  "oss_bucket r = Some h \<Longrightarrow> fst (snd (log_artifacts env srv r tr d sub)) = r"
  by (simp add: log_artifacts_def Let_def get_oss_bucket_stored case_prod_beta split: sum.splits)

lemma list_artifacts_repo:
  "oss_bucket r = Some h \<Longrightarrow> fst (snd (list_artifacts env srv r tr sub)) = r"
  by (simp add: list_artifacts_def Let_def get_oss_bucket_stored case_prod_beta split: sum.splits)

text \<open>
  C9. The handle is built at most once. On a repository without a handle the first
  \<open>_get_oss_bucket\<close> builds it from the stored authentication, the endpoint and the
  bucket name given, and stores it. Once a call has returned a handle, every later call,
  whatever bucket name it is given, returns that handle and leaves the repository as it
  is; uploads, downloads and listings then leave it in place as well.
\<close>

theorem get_oss_bucket_built_once:
  "(oss_bucket r = None \<and> auth r = Some a \<and> oss_endpoint_url r = Some e \<longrightarrow>
      get_oss_bucket r b =
        (Inr \<lparr>handle_auth = a, handle_endpoint = e, handle_name = b\<rparr>,
         r\<lparr>oss_bucket := Some \<lparr>handle_auth = a, handle_endpoint = e, handle_name = b\<rparr>\<rparr>))
   \<and> (get_oss_bucket r b = (Inr h, r') \<longrightarrow>
        oss_bucket r' = Some h
        \<and> get_oss_bucket r' b' = (Inr h, r')
        \<and> get_oss_buckets r' bs = (map (\<lambda>_. Inr h) bs, r')
        \<and> fst (snd (log_artifact env srv r' tr f sub)) = r'
        \<and> fst (snd (log_artifacts env srv r' tr f sub)) = r'
        \<and> fst (snd (list_artifacts env srv r' tr sub)) = r'
        \<and> fst (snd (download_file env srv r' tr f f')) = r')"
proof (intro conjI impI)
  assume "oss_bucket r = None \<and> auth r = Some a \<and> oss_endpoint_url r = Some e"
  then show "get_oss_bucket r b =
        (Inr \<lparr>handle_auth = a, handle_endpoint = e, handle_name = b\<rparr>,
         r\<lparr>oss_bucket := Some \<lparr>handle_auth = a, handle_endpoint = e, handle_name = b\<rparr>\<rparr>)"
    by (simp add: get_oss_bucket_def Let_def)
next
  assume "get_oss_bucket r b = (Inr h, r')"
  then have s: "oss_bucket r' = Some h"
    by (rule get_oss_bucket_stores)
  show "oss_bucket r' = Some h" by (rule s)
  show "get_oss_bucket r' b' = (Inr h, r')" by (rule get_oss_bucket_stored [OF s])
  show "get_oss_buckets r' bs = (map (\<lambda>_. Inr h) bs, r')" by (rule get_oss_buckets_stored [OF s])
  show "fst (snd (log_artifact env srv r' tr f sub)) = r'" by (rule log_artifact_repo [OF s])
  show "fst (snd (log_artifacts env srv r' tr f sub)) = r'" by (rule log_artifacts_repo [OF s])
  show "fst (snd (list_artifacts env srv r' tr sub)) = r'" by (rule list_artifacts_repo [OF s])
  show "fst (snd (download_file env srv r' tr f f')) = r'" by (rule download_file_repo [OF s])
qed

theorem get_oss_bucket_built_once_witness:
  "get_oss_bucket (example_repo ''oss://mybucket/run'') ''mybucket'' =
     (Inr example_handle, (example_repo ''oss://mybucket/run'')\<lparr>oss_bucket := Some example_handle\<rparr>)
   \<and> get_oss_bucket ((example_repo ''oss://mybucket/run'')\<lparr>oss_bucket := Some example_handle\<rparr>)
        ''other'' =
       (Inr example_handle, (example_repo ''oss://mybucket/run'')\<lparr>oss_bucket := Some example_handle\<rparr>)
   \<and> get_oss_buckets ((example_repo ''oss://mybucket/run'')\<lparr>oss_bucket := Some example_handle\<rparr>)
        [''other'', ''mybucket''] =
       ([Inr example_handle, Inr example_handle],
        (example_repo ''oss://mybucket/run'')\<lparr>oss_bucket := Some example_handle\<rparr>)"
proof -
  let ?r = "example_repo ''oss://mybucket/run''"
  have pre: "oss_bucket ?r = None \<and> auth ?r = Some (Auth ''id'' ''secret'')
               \<and> oss_endpoint_url ?r = Some ''oss-cn-x.example.com''"
    by (simp add: example_repo_def)
  note t = get_oss_bucket_built_once
             [of ?r "Auth ''id'' ''secret''" "''oss-cn-x.example.com''" "''mybucket''"
                 example_handle "?r\<lparr>oss_bucket := Some example_handle\<rparr>" "''other''"
                 "[''other'', ''mybucket'']"]
  from t pre have first: "get_oss_bucket ?r ''mybucket'' =
     (Inr example_handle, ?r\<lparr>oss_bucket := Some example_handle\<rparr>)"
    by (simp add: example_handle_def)
  with t show ?thesis by (simp del: get_oss_buckets.simps)
qed

lemma posix_join_nonempty: "b \<noteq> [] \<Longrightarrow> posix_join a b \<noteq> []"
  by (simp add: posix_join_def)

lemma startswith_hd: "startswith k p \<Longrightarrow> p \<noteq> [] \<Longrightarrow> k \<noteq> [] \<and> hd k = hd p"
  by (cases k; cases p) (auto simp: startswith_def)

lemma parse_oss_uri_example_root:
  "parse_oss_uri env (artifact_uri (example_repo ''oss://mybucket'')) = Inr (''mybucket'', [])"
  by (simp add: example_repo_def parse_oss_uri_example_bare)

lemma parse_oss_uri_example_repo_run:
  "parse_oss_uri env (artifact_uri (example_repo ''oss://mybucket/run'')) = Inr (''mybucket'', ''run'')"
  by (simp add: example_repo_def uri_eval)

section \<open>Properties of the listing query\<close>

text \<open>
  C6, as the code has it. The listing makes one \<open>list_objects\<close> call with delimiter
  \<open>/\<close>. Its prefix is the listing path followed by \<open>/\<close> when the listing path is not
  empty, and the empty string when it is; the listing path is the base prefix when the
  sub-path is left out or empty, and the join of the two otherwise.
\<close>

theorem list_artifacts_query_prefix:
  assumes "parse_oss_uri env (artifact_uri r) = Inr (b, ap)"
      and "get_oss_bucket r b = (Inr h, r')"
  shows "(sub = None \<or> sub = Some [] \<longrightarrow> ap \<noteq> [] \<longrightarrow>
            snd (snd (list_artifacts env srv r tr sub)) = tr @ [ListObjects h (ap @ ''/'') ''/''])
       \<and> (sub = None \<or> sub = Some [] \<longrightarrow> ap = [] \<longrightarrow>
            snd (snd (list_artifacts env srv r tr sub)) = tr @ [ListObjects h [] ''/''])
       \<and> (sub = Some s \<and> s \<noteq> [] \<longrightarrow>
            snd (snd (list_artifacts env srv r tr sub)) =
              tr @ [ListObjects h (posix_join ap s @ ''/'') ''/''])"
  using posix_join_nonempty [of s ap]
  by (auto simp: list_artifacts_calls [OF assms] Let_def)

theorem list_artifacts_query_prefix_witness:
  "snd (snd (list_artifacts example_env example_service (example_repo ''oss://mybucket/run'') []
        (Some ''sub''))) = [ListObjects example_handle ''run/sub/'' ''/'']
   \<and> snd (snd (list_artifacts example_env example_service (example_repo ''oss://mybucket'') []
        None)) = [ListObjects example_handle [] ''/'']"
proof -
  note a = list_artifacts_query_prefix
    [OF parse_oss_uri_example_repo_run get_oss_bucket_example,
     of "Some ''sub''" example_env example_service "[]" "''sub''"]
  note b = list_artifacts_query_prefix
    [OF parse_oss_uri_example_root get_oss_bucket_example,
     of None example_env example_service "[]" "''sub''"]
  from a b show ?thesis
    by (simp add: posix_join_def endswith_def startswith_def)
qed

theorem list_artifacts_query_prefix_counterexample:
  "parse_oss_uri example_env (artifact_uri (example_repo ''oss://mybucket'')) = Inr (''mybucket'', [])
   \<and> snd (snd (list_artifacts example_env example_service (example_repo ''oss://mybucket'') [] None))
       = [ListObjects example_handle [] ''/'']
   \<and> [ListObjects example_handle [] ''/''] \<noteq> [ListObjects example_handle ([] @ ''/'') ''/'']"
  by (simp add: parse_oss_uri_example_root
      list_artifacts_calls [OF parse_oss_uri_example_root get_oss_bucket_example])

section \<open>Properties of the upload key\<close>

text \<open>
  C2, as the code has it. With a base prefix that is not empty and does not end in \<open>/\<close>,
  the single-file upload puts the file at \<open>prefix/basename\<close> when the sub-path is left
  out or is the empty string, and at \<open>prefix/subpath/basename\<close> when a non-empty
  sub-path is given that neither starts nor ends with \<open>/\<close>.
\<close>

theorem log_artifact_key:
  assumes "parse_oss_uri env (artifact_uri r) = Inr (b, ap)"
      and "get_oss_bucket r b = (Inr h, r')"
      and "ap \<noteq> []" and "\<not> endswith ap ''/''"
  shows "(sub = None \<or> sub = Some [] \<longrightarrow>
            snd (snd (log_artifact env srv r tr f sub)) =
              tr @ [PutObjectFromFile h (ap @ ''/'' @ basename f) f])
       \<and> (sub = Some s \<and> s \<noteq> [] \<and> \<not> startswith s ''/'' \<and> \<not> endswith s ''/'' \<longrightarrow>
            snd (snd (log_artifact env srv r tr f sub)) =
              tr @ [PutObjectFromFile h (ap @ ''/'' @ s @ ''/'' @ basename f) f])"
proof (intro conjI impI)
  assume "sub = None \<or> sub = Some []"
  then show "snd (snd (log_artifact env srv r tr f sub)) =
              tr @ [PutObjectFromFile h (ap @ ''/'' @ basename f) f]"
    using assms(3,4) basename_not_abs [of f]
    by (auto simp: log_artifact_calls [OF assms(1,2)] posix_join_rel)
next
  assume s: "sub = Some s \<and> s \<noteq> [] \<and> \<not> startswith s ''/'' \<and> \<not> endswith s ''/''"
  then have j: "posix_join ap s = ap @ ''/'' @ s"
    using assms(3,4) by (simp add: posix_join_rel)
  have "\<not> endswith (ap @ ''/'' @ s) ''/''"
    using s by (auto simp: endswith_slash)
  then have "posix_join (ap @ ''/'' @ s) (basename f) = (ap @ ''/'' @ s) @ ''/'' @ basename f"
    using basename_not_abs [of f] by (intro posix_join_rel) simp_all
  then show "snd (snd (log_artifact env srv r tr f sub)) =
              tr @ [PutObjectFromFile h (ap @ ''/'' @ s @ ''/'' @ basename f) f]"
    using s j by (simp add: log_artifact_calls [OF assms(1,2)])
qed

theorem log_artifact_key_witness:
  "snd (snd (log_artifact example_env example_service (example_repo ''oss://mybucket/run'') []
        ''/tmp/model.pkl'' (Some ''models/v1'')))
     = [PutObjectFromFile example_handle ''run/models/v1/model.pkl'' ''/tmp/model.pkl'']
   \<and> snd (snd (log_artifact example_env example_service (example_repo ''oss://mybucket/run'') []
        ''/tmp/model.pkl'' (Some [])))
     = [PutObjectFromFile example_handle ''run/model.pkl'' ''/tmp/model.pkl'']"
proof -
  have ne: "''run'' \<noteq> []" and ns: "\<not> endswith ''run'' ''/''"
    by (simp_all add: endswith_def)
  have bn: "basename ''/tmp/model.pkl'' = ''model.pkl''"
    by (simp add: basename_def)
  note a = log_artifact_key
    [OF parse_oss_uri_example_repo_run get_oss_bucket_example ne ns,
     of "Some ''models/v1''" example_env example_service "[]" "''/tmp/model.pkl''" "''models/v1''"]
  note b = log_artifact_key
    [OF parse_oss_uri_example_repo_run get_oss_bucket_example ne ns,
     of "Some []" example_env example_service "[]" "''/tmp/model.pkl''" "''models/v1''"]
  from a b show ?thesis
    by (simp add: bn endswith_def startswith_def)
qed

theorem log_artifact_key_counterexample:
  "parse_oss_uri example_env (artifact_uri (example_repo ''oss://mybucket'')) = Inr (''mybucket'', [])
   \<and> snd (snd (log_artifact example_env example_service (example_repo ''oss://mybucket'') []
        ''/tmp/f.txt'' None))
       = [PutObjectFromFile example_handle ''f.txt'' ''/tmp/f.txt'']
   \<and> ''f.txt'' \<noteq> [] @ ''/'' @ basename ''/tmp/f.txt''"
  by (simp add: parse_oss_uri_example_root
      log_artifact_calls [OF parse_oss_uri_example_root get_oss_bucket_example]
      posix_join_def basename_def startswith_def)

section \<open>Outcome of the single-file operations\<close>

lemma log_artifact_result:
  assumes "parse_oss_uri env (artifact_uri r) = Inr (b, ap)"
      and "get_oss_bucket r b = (Inr h, r')"
  shows "fst (log_artifact env srv r tr f sub) =
           (case put_raises srv tr h
                   (posix_join (case sub of None \<Rightarrow> ap
                                | Some s \<Rightarrow> if s \<noteq> [] then posix_join ap s else ap)
                      (basename f)) f of
              None \<Rightarrow> Inr ()
            | Some msg \<Rightarrow> Inl (StorageError msg))"
  using assms
  by (simp add: log_artifact_def Let_def put_object_from_file_def split: option.splits)

lemma download_file_result:
  assumes "parse_oss_uri env (artifact_uri r) = Inr (b, ap)"
      and "get_oss_bucket r b = (Inr h, r')"
  shows "fst (download_file env srv r tr remote lp) =
           (case get_raises srv tr h (posix_join ap remote) lp of
              None \<Rightarrow> Inr ()
            | Some msg \<Rightarrow> Inl (StorageError msg))"
  using assms
  by (simp add: download_file_def Let_def get_object_to_file_def split: option.splits)

section \<open>Path components\<close>

lemma split_sep_not_Nil: "split_sep c s \<noteq> []"
  by (induction s) (auto split: list.splits)

lemma split_sep_append: "split_sep c (a @ c # b) = split_sep c a @ split_sep c b"
proof (induction a)
  case Nil
  then show ?case by simp
next
  case (Cons x a)
  then show ?case
    using split_sep_not_Nil [of c a] by (cases "split_sep c a") auto
qed

lemma split_sep_free: "c \<notin> set s \<Longrightarrow> split_sep c s = [s]"
  by (induction s) auto

lemma join_sep_Cons: "xs \<noteq> [] \<Longrightarrow> join_sep sep (x # xs) = x @ sep @ join_sep sep xs"
  by (cases xs) simp_all

lemma split_sep_join:
  "xs \<noteq> [] \<Longrightarrow> \<forall>x \<in> set xs. c \<notin> set x \<Longrightarrow> split_sep c (join_sep [c] xs) = xs"
proof (induction xs)
  case Nil
  then show ?case by simp
next
  case (Cons x xs)
  show ?case
  proof (cases "xs = []")
    case True
    then show ?thesis using Cons.prems by (simp add: split_sep_free)
  next
    case False
    then have "split_sep c (join_sep [c] (x # xs)) = split_sep c x @ split_sep c (join_sep [c] xs)"
      using split_sep_append [of c x "join_sep [c] xs"] by (simp add: join_sep_Cons)
    then show ?thesis
      using Cons False by (simp add: split_sep_free)
  qed
qed

lemma in_split_sep_free: "w \<in> set (split_sep c s) \<Longrightarrow> c \<notin> set w"
proof (induction s arbitrary: w)
  case Nil
  then show ?case by simp
next
  case (Cons x s)
  then show ?case
    using split_sep_not_Nil [of c s]
    by (cases "split_sep c s") (auto split: if_splits)
qed

lemma join_sep_snoc: "xs \<noteq> [] \<Longrightarrow> join_sep sep (xs @ [x]) = join_sep sep xs @ sep @ x"
  by (induction sep xs rule: join_sep.induct) auto

lemma join_sep_append:
  "xs \<noteq> [] \<Longrightarrow> ys \<noteq> [] \<Longrightarrow> join_sep sep (xs @ ys) = join_sep sep xs @ sep @ join_sep sep ys"
proof (induction sep xs rule: join_sep.induct)
  case (1 sep)
  then show ?case by simp
next
  case (2 sep x)
  then show ?case by (cases ys) auto
next
  case (3 sep x y zs)
  then show ?case by simp
qed

lemma components_join_sep:
  assumes "\<forall>x \<in> set xs. x \<noteq> [] \<and> CHR ''/'' \<notin> set x"
  shows "components (join_sep ''/'' xs) = xs"
proof (cases "xs = []")
  case True
  then show ?thesis by simp
next
  case False
  then have "split_sep CHR ''/'' (join_sep ''/'' xs) = xs"
    using assms by (intro split_sep_join) auto
  then show ?thesis
    using assms by (simp add: filter_id_conv)
qed


lemma components_leading_slash: "components (CHR ''/'' # s) = components s"
  by simp

lemma norm_comps_filter:
  "norm_comps b (filter (\<lambda>x. x \<noteq> []) xs) acc = norm_comps b xs acc"
  by (induction b xs acc rule: norm_comps.induct) simp_all


lemma norm_comps_clean:
  "\<forall>y \<in> set ys. clean_name y \<Longrightarrow> norm_comps b ys acc = acc @ ys"
  by (induction ys arbitrary: acc) (simp_all add: clean_name_def)

lemma norm_comps_abs_clean:
  assumes "\<forall>x \<in> set xs. CHR ''/'' \<notin> set x" and "\<forall>a \<in> set acc. clean_name a"
  shows "\<forall>y \<in> set (norm_comps True xs acc). clean_name y"
  using assms
proof (induction xs arbitrary: acc)
  case Nil
  then show ?case by simp
next
  case (Cons x xs)
  have xs: "\<forall>x \<in> set xs. CHR ''/'' \<notin> set x"
    using Cons.prems(1) by simp
  have bl: "\<forall>a \<in> set (butlast acc). clean_name a"
    using Cons.prems(2) by (auto dest: in_set_butlastD)
  have nl: "acc \<noteq> [] \<Longrightarrow> last acc \<noteq> ''..''"
    using Cons.prems(2) last_in_set [of acc] by (auto simp: clean_name_def)
  show ?case
  proof (cases "x = [] \<or> x = ''.''")
    case True
    then show ?thesis using Cons.IH [OF xs Cons.prems(2)] by auto
  next
    case skip: False
    show ?thesis
    proof (cases "x = ''..''")
      case True
      show ?thesis
      proof (cases "acc = []")
        case True
        then show ?thesis using \<open>x = ''..''\<close> Cons.IH [OF xs Cons.prems(2)] by simp
      next
        case False
        then show ?thesis using \<open>x = ''..''\<close> nl Cons.IH [OF xs bl] by simp
      qed
    next
      case False
      have "x \<noteq> []" "x \<noteq> ''.''" using skip by auto
      moreover have "CHR ''/'' \<notin> set x" using Cons.prems(1) by simp
      ultimately have "clean_name x"
        using False by (simp add: clean_name_def)
      then have "\<forall>a \<in> set (acc @ [x]). clean_name a"
        using Cons.prems(2) by auto
      from Cons.IH [OF xs this] show ?thesis
        using False skip by simp
    qed
  qed
qed

lemma normpath_abs_form:
  assumes "startswith p ''/''"
  shows "normpath p = ''/'' @ join_sep ''/'' (norm_comps True (components p) [])
       \<or> normpath p = ''//'' @ join_sep ''/'' (norm_comps True (components p) [])"
proof -
  have "p \<noteq> []" using assms by (auto simp: startswith_def)
  then show ?thesis
    using assms by (simp add: normpath_def Let_def norm_comps_filter numeral_2_eq_2)
qed

lemma norm_comps_abs_names:
  "\<forall>y \<in> set (norm_comps True (components p) []). clean_name y"
  by (rule norm_comps_abs_clean) (auto dest: in_split_sep_free)

lemma components_slashes_join:
  assumes "\<forall>y \<in> set ys. clean_name y"
  shows "components (''/'' @ join_sep ''/'' ys) = ys"
    and "components (''//'' @ join_sep ''/'' ys) = ys"
proof -
  have "components (join_sep ''/'' ys) = ys"
    using assms by (intro components_join_sep) (auto simp: clean_name_def)
  then show "components (''/'' @ join_sep ''/'' ys) = ys"
    and "components (''//'' @ join_sep ''/'' ys) = ys"
    by simp_all
qed

lemma normpath_abs_components:
  assumes "startswith p ''/''"
  shows "components (normpath p) = norm_comps True (components p) []"
  using normpath_abs_form [OF assms] components_slashes_join [OF norm_comps_abs_names [of p]]
  by auto


lemma abspath_abs_components:
  "startswith p ''/'' \<Longrightarrow> components (abspath env p) = norm_comps True (components p) []"
  by (simp add: abspath_def isabs_def normpath_abs_components)


lemma commonprefix_append: "commonprefix xs (xs @ ys) = xs"
  by (induction xs) simp_all

lemma join_sep_clean_not_Nil:
  "xs \<noteq> [] \<Longrightarrow> \<forall>x \<in> set xs. clean_name x \<Longrightarrow> join_sep sep xs \<noteq> []"
  by (cases "(sep, xs)" rule: join_sep.cases) (auto simp: clean_name_def)




section \<open>Properties of the listing\<close>

lemma startswith_Nil [simp]: "startswith k []"
  by (simp add: startswith_def)

lemma startswith_not_Nil: "startswith k p \<Longrightarrow> p \<noteq> [] \<Longrightarrow> k \<noteq> []"
  by (auto simp: startswith_def)

lemma list_files_cases:
  "list_files env ap objs infos =
     (if \<exists>k \<in> set (map obj_key objs). \<not> startswith k ap
        then Inl (ObjectPathMismatch ap (hd (filter (\<lambda>k. \<not> startswith k ap) (map obj_key objs))))
      else if ap = [] \<and> [] \<in> set (map obj_key objs) then Inl ValueError
      else Inr (infos @ map (\<lambda>obj. \<lparr>file_path = rel_of env (obj_key obj) ap, is_dir = False,
                                      file_size = Some (obj_size obj)\<rparr>) objs))"
proof (induction objs arbitrary: infos)
  case Nil
  then show ?case by simp
next
  case (Cons obj objs)
  show ?case
  proof (cases "startswith (obj_key obj) ap")
    case False
    then show ?thesis
      by (simp add: verify_listed_object_contains_artifact_path_prefix_def)
  next
    case True
    show ?thesis
    proof (cases "obj_key obj = []")
      case empty: True
      then have "ap = []" using True startswith_not_Nil by blast
      then show ?thesis
        using empty by (simp add: verify_listed_object_contains_artifact_path_prefix_def relpath_def)
    next
      case False
      then show ?thesis
        using True Cons.IH
        by (simp add: verify_listed_object_contains_artifact_path_prefix_def relpath_def)
    qed
  qed
qed

lemma list_dirs_cases:
  "list_dirs env ap ps infos =
     (if \<exists>k \<in> set ps. \<not> startswith k ap
        then Inl (ObjectPathMismatch ap (hd (filter (\<lambda>k. \<not> startswith k ap) ps)))
      else if ap = [] \<and> [] \<in> set ps then Inl ValueError
      else Inr (infos @ map (\<lambda>p. \<lparr>file_path = rel_of env p ap, is_dir = True,
                                    file_size = None\<rparr>) ps))"
proof (induction ps arbitrary: infos)
  case Nil
  then show ?case by simp
next
  case (Cons p ps)
  show ?case
  proof (cases "startswith p ap")
    case False
    then show ?thesis
      by (simp add: verify_listed_object_contains_artifact_path_prefix_def)
  next
    case True
    show ?thesis
    proof (cases "p = []")
      case empty: True
      then have "ap = []" using True startswith_not_Nil by blast
      then show ?thesis
        using empty by (simp add: verify_listed_object_contains_artifact_path_prefix_def relpath_def)
    next
      case False
      then show ?thesis
        using True Cons.IH
        by (simp add: verify_listed_object_contains_artifact_path_prefix_def relpath_def)
    qed
  qed
qed

lemma hd_filter_append:
  "hd (filter P (xs @ ys)) = (if \<exists>x \<in> set xs. P x then hd (filter P xs) else hd (filter P ys))"
  by (auto simp: filter_empty_conv)

lemma list_artifacts_result:
  assumes parse: "parse_oss_uri env (artifact_uri r) = Inr (b, ap)"
      and handle: "get_oss_bucket r b = (Inr h, r')"
      and answer: "list_answer srv tr h
                     (let dest_path = (case sub of None \<Rightarrow> ap
                                       | Some s \<Rightarrow> if s \<noteq> [] then posix_join ap s else ap)
                      in if dest_path \<noteq> [] then dest_path @ ''/'' else [])
                     ''/'' = Inr res"
  shows "fst (list_artifacts env srv r tr sub) =
     (if \<exists>k \<in> set (map obj_key (object_list res) @ prefix_list res). \<not> startswith k ap
        then Inl (ObjectPathMismatch ap
                    (hd (filter (\<lambda>k. \<not> startswith k ap)
                           (map obj_key (object_list res) @ prefix_list res))))
      else if ap = [] \<and> [] \<in> set (map obj_key (object_list res) @ prefix_list res)
        then Inl ValueError
      else Inr (sort_key file_path
                  (map (\<lambda>obj. \<lparr>file_path = rel_of env (obj_key obj) ap, is_dir = False,
                                file_size = Some (obj_size obj)\<rparr>) (object_list res)
                   @ map (\<lambda>p. \<lparr>file_path = rel_of env p ap, is_dir = True,
                                file_size = None\<rparr>) (prefix_list res))))"
proof -
  define pfx where "pfx = (let dest_path = (case sub of None \<Rightarrow> ap
                                       | Some s \<Rightarrow> if s \<noteq> [] then posix_join ap s else ap)
                      in if dest_path \<noteq> [] then dest_path @ ''/'' else [])"
  have lo: "list_objects srv h pfx ''/'' tr = (Inr res, tr @ [ListObjects h pfx ''/''])"
    using answer unfolding pfx_def by (simp add: list_objects_def)
  have la: "fst (list_artifacts env srv r tr sub) =
     (case list_files env ap (object_list res) [] of
        Inl e \<Rightarrow> Inl e
      | Inr infos1 \<Rightarrow>
          (case list_dirs env ap (prefix_list res) infos1 of
             Inl e \<Rightarrow> Inl e
           | Inr infos \<Rightarrow> Inr (sort_key file_path infos)))"
    using parse handle lo unfolding list_artifacts_def pfx_def Let_def
    by (simp split: sum.splits)
  show ?thesis
    unfolding la list_files_cases list_dirs_cases hd_filter_append
    by (auto simp del: set_map)
qed

text \<open>
  C5. Once the URI is parsed, the handle obtained and the storage has answered, the
  listing raises the path-mismatch exception exactly when one of the returned object
  keys or common prefixes does not start with the base prefix of the artifact URI (the
  sub-path plays no part in the check); the exception then names the first such key, the
  objects coming before the prefixes.
\<close>

theorem list_artifacts_mismatch_iff:
  assumes "parse_oss_uri env (artifact_uri r) = Inr (b, ap)"
      and "get_oss_bucket r b = (Inr h, r')"
      and "list_answer srv tr h
             (let dest_path = (case sub of None \<Rightarrow> ap
                               | Some s \<Rightarrow> if s \<noteq> [] then posix_join ap s else ap)
              in if dest_path \<noteq> [] then dest_path @ ''/'' else [])
             ''/'' = Inr res"
  shows "((\<exists>a k. fst (list_artifacts env srv r tr sub) = Inl (ObjectPathMismatch a k))
            \<longleftrightarrow> (\<exists>k \<in> set (map obj_key (object_list res) @ prefix_list res). \<not> startswith k ap))
       \<and> ((\<exists>k \<in> set (map obj_key (object_list res) @ prefix_list res). \<not> startswith k ap) \<longrightarrow>
            fst (list_artifacts env srv r tr sub) =
              Inl (ObjectPathMismatch ap
                     (hd (filter (\<lambda>k. \<not> startswith k ap)
                            (map obj_key (object_list res) @ prefix_list res)))))"
  unfolding list_artifacts_result [OF assms] by (simp del: set_append set_map)

theorem list_artifacts_mismatch_iff_witness:
  "fst (list_artifacts example_env stray_service (example_repo ''oss://mybucket/run'') [] None)
     = Inl (ObjectPathMismatch ''run'' ''elsewhere/x'')
   \<and> \<not> (\<exists>a k. fst (list_artifacts example_env stray_service (example_repo ''oss://mybucket/run'')
                     [] (Some ''sub'')) = Inl (ObjectPathMismatch a k))"
proof -
  let ?bad = "\<lparr>object_list = [\<lparr>obj_key = ''run/a.txt'', obj_size = 10\<rparr>,
                                \<lparr>obj_key = ''elsewhere/x'', obj_size = 7\<rparr>],
                prefix_list = [''run/sub/'']\<rparr>"
  let ?good = "\<lparr>object_list = [\<lparr>obj_key = ''run/other.txt'', obj_size = 5\<rparr>], prefix_list = []\<rparr>"
  have a1: "list_answer stray_service [] example_handle
             (let dest_path = (case None of None \<Rightarrow> ''run''
                               | Some s \<Rightarrow> if s \<noteq> [] then posix_join ''run'' s else ''run'')
              in if dest_path \<noteq> [] then dest_path @ ''/'' else [])
             ''/'' = Inr ?bad"
    by (simp add: stray_service_def)
  have a2: "list_answer stray_service [] example_handle
             (let dest_path = (case Some ''sub'' of None \<Rightarrow> ''run''
                               | Some s \<Rightarrow> if s \<noteq> [] then posix_join ''run'' s else ''run'')
              in if dest_path \<noteq> [] then dest_path @ ''/'' else [])
             ''/'' = Inr ?good"
    by (simp add: stray_service_def posix_join_def startswith_def endswith_def)
  note t1 = list_artifacts_mismatch_iff
    [OF parse_oss_uri_example_repo_run get_oss_bucket_example a1, of example_env]
  note t2 = list_artifacts_mismatch_iff
    [OF parse_oss_uri_example_repo_run get_oss_bucket_example a2, of example_env]
  have "fst (list_artifacts example_env stray_service (example_repo ''oss://mybucket/run'') [] None)
     = Inl (ObjectPathMismatch ''run'' ''elsewhere/x'')"
    using t1 by (simp add: startswith_def)
  moreover have "\<not> (\<exists>a k. fst (list_artifacts example_env stray_service
       (example_repo ''oss://mybucket/run'') [] (Some ''sub'')) = Inl (ObjectPathMismatch a k))"
    using t2 by (simp add: startswith_def)
  ultimately show ?thesis by blast
qed



section \<open>Properties of the directory upload\<close>

lemma put_all_append:
  "put_all srv h (xs @ ys) tr =
     (case put_all srv h xs tr of
        (Inl e, tr') \<Rightarrow> (Inl e, tr')
      | (Inr _, tr') \<Rightarrow> put_all srv h ys tr')"
  by (induction srv h xs tr rule: put_all.induct) (auto split: prod.splits sum.splits)

lemma put_files_put_all:
  "put_files srv h upload_path root fs tr =
     put_all srv h (map (\<lambda>f. (posix_join upload_path f, posix_join root f)) fs) tr"
  by (induction fs arbitrary: tr) (auto split: prod.splits sum.splits)

lemma walk_loop_append:
  "walk_loop env srv h dest_path local_dir (xs @ ys) tr =
     (case walk_loop env srv h dest_path local_dir xs tr of
        (Inl e, tr') \<Rightarrow> (Inl e, tr')
      | (Inr _, tr') \<Rightarrow> walk_loop env srv h dest_path local_dir ys tr')"
  by (induction env srv h dest_path local_dir xs tr rule: walk_loop.induct)
     (auto split: prod.splits sum.splits)

lemma put_all_success:
  "fst (put_all srv h kfs tr) = Inr () \<Longrightarrow>
     snd (put_all srv h kfs tr) = tr @ map (\<lambda>(k, f). PutObjectFromFile h k f) kfs"
proof (induction srv h kfs tr rule: put_all.induct)
  case (1 srv h tr)
  then show ?case by simp
next
  case (2 srv h k f kfs tr)
  then show ?case
    using put_object_from_file_calls [of srv h k f tr]
    by (auto split: prod.splits sum.splits)
qed

lemma put_all_prefix:
  "\<exists>n \<le> length kfs.
     snd (put_all srv h kfs tr) = tr @ take n (map (\<lambda>(k, f). PutObjectFromFile h k f) kfs)"
proof (induction srv h kfs tr rule: put_all.induct)
  case (1 srv h tr)
  then show ?case by simp
next
  case (2 srv h k f kfs tr)
  obtain res tr' where p: "put_object_from_file srv h k f tr = (res, tr')"
    by (cases "put_object_from_file srv h k f tr")
  then have tr': "tr' = tr @ [PutObjectFromFile h k f]"
    using put_object_from_file_calls [of srv h k f tr] by simp
  show ?case
  proof (cases res)
    case (Inl e)
    then have "snd (put_all srv h ((k, f) # kfs) tr)
                 = tr @ take 1 (map (\<lambda>(k, f). PutObjectFromFile h k f) ((k, f) # kfs))"
      using p tr' by simp
    then show ?thesis
      by (intro exI [of _ 1]) simp
  next
    case (Inr u)
    with 2 p obtain n where n: "n \<le> length kfs"
      "snd (put_all srv h kfs tr') = tr' @ take n (map (\<lambda>(k, f). PutObjectFromFile h k f) kfs)"
      by auto
    then have "snd (put_all srv h ((k, f) # kfs) tr)
                 = tr @ take (Suc n) (map (\<lambda>(k, f). PutObjectFromFile h k f) ((k, f) # kfs))"
      using p tr' Inr by simp
    then show ?thesis
      using n(1) by (intro exI [of _ "Suc n"]) simp
  qed
qed

lemma put_all_no_raise:
  "\<forall>tr' k f. put_raises srv tr' h k f = None \<Longrightarrow> fst (put_all srv h kfs tr) = Inr ()"
  by (induction srv h kfs tr rule: put_all.induct)
     (auto simp: put_object_from_file_def split: prod.splits sum.splits)

lemma abspath_form:
  assumes "startswith (getcwd env) ''/''"
  shows "\<exists>sl C. (sl = ''/'' \<or> sl = ''//'') \<and> (\<forall>c \<in> set C. clean_name c)
           \<and> abspath env p = sl @ join_sep ''/'' C"
proof -
  let ?x = "if isabs p then p else posix_join (getcwd env) p"
  have "startswith ?x ''/''"
    using assms by (cases "getcwd env") (auto simp: isabs_def posix_join_def startswith_def)
  from normpath_abs_form [OF this] norm_comps_abs_names [of ?x]
  show ?thesis
    unfolding abspath_def by blast
qed

lemma join_sep_ends_with_last:
  "xs \<noteq> [] \<Longrightarrow> \<exists>pre. join_sep sep xs = pre @ last xs"
proof (induction sep xs rule: join_sep.induct)
  case (1 sep)
  then show ?case by simp
next
  case (2 sep x)
  then show ?case by simp
next
  case (3 sep x y ys)
  then obtain pre where "join_sep sep (y # ys) = pre @ last (y # ys)"
    by auto
  then have "join_sep sep (x # y # ys) = (x @ sep @ pre) @ last (x # y # ys)"
    by simp
  then show ?case by blast
qed

lemma last_join_sep:
  assumes "xs \<noteq> []" and "last xs \<noteq> []"
  shows "last (join_sep sep xs) = last (last xs)"
proof -
  obtain pre where "join_sep sep xs = pre @ last xs"
    using join_sep_ends_with_last [OF assms(1)] by blast
  then show ?thesis
    using assms(2) by simp
qed

lemma rooted_not_endswith_slash:
  assumes "M \<noteq> []" and "\<forall>c \<in> set M. clean_name c"
  shows "\<not> endswith (sl @ join_sep ''/'' M) ''/''"
proof -
  have l: "clean_name (last M)"
    using assms by simp
  then have ne: "last M \<noteq> []" and sf: "CHR ''/'' \<notin> set (last M)"
    by (auto simp: clean_name_def)
  have "last M \<noteq> []" and "last (last M) \<noteq> CHR ''/''"
    using ne sf by (metis last_in_set)+
  moreover have "join_sep ''/'' M \<noteq> []"
    using assms by (rule join_sep_clean_not_Nil)
  ultimately show ?thesis
    using assms(1) by (simp add: endswith_slash last_join_sep)
qed

lemma posix_join_rooted:
  assumes sl: "sl = ''/'' \<or> sl = ''//''"
      and M: "\<forall>c \<in> set M. clean_name c" and d: "clean_name d"
  shows "posix_join (sl @ join_sep ''/'' M) d = sl @ join_sep ''/'' (M @ [d])"
proof -
  have rel: "\<not> startswith d ''/''"
    using d by (cases d) (auto simp: clean_name_def startswith_def)
  show ?thesis
  proof (cases "M = []")
    case True
    then show ?thesis
      using sl rel by (auto simp: posix_join_def endswith_def)
  next
    case False
    then have "\<not> endswith (sl @ join_sep ''/'' M) ''/''"
      using M by (rule rooted_not_endswith_slash)
    moreover have "sl @ join_sep ''/'' M \<noteq> []"
      using sl by auto
    ultimately show ?thesis
      using rel False by (simp add: posix_join_def join_sep_snoc)
  qed
qed

lemma foldl_posix_join_rooted:
  assumes sl: "sl = ''/'' \<or> sl = ''//''"
      and C: "\<forall>c \<in> set C. clean_name c" and ds: "\<forall>d \<in> set ds. clean_name d"
  shows "foldl posix_join (sl @ join_sep ''/'' C) ds = sl @ join_sep ''/'' (C @ ds)"
  using ds
proof (induction ds rule: rev_induct)
  case Nil
  then show ?case by simp
next
  case (snoc d ds)
  then have "\<forall>c \<in> set (C @ ds). clean_name c" and "clean_name d"
    using C by auto
  from posix_join_rooted [OF sl this] snoc show ?case
    by simp
qed

lemma abspath_rooted_components:
  assumes sl: "sl = ''/'' \<or> sl = ''//''" and M: "\<forall>c \<in> set M. clean_name c"
  shows "components (abspath env (sl @ join_sep ''/'' M)) = M"
proof -
  have "startswith (sl @ join_sep ''/'' M) ''/''"
    using sl by (auto simp: startswith_def)
  then have "components (abspath env (sl @ join_sep ''/'' M))
               = norm_comps True (components (sl @ join_sep ''/'' M)) []"
    by (rule abspath_abs_components)
  also have "components (sl @ join_sep ''/'' M) = M"
    using sl components_slashes_join [OF M] by auto
  finally show ?thesis
    using norm_comps_clean [OF M, of True "[]"] by simp
qed

lemma rel_of_rooted:
  assumes sl: "sl = ''/'' \<or> sl = ''//''"
      and C: "\<forall>c \<in> set C. clean_name c" and ds: "\<forall>d \<in> set ds. clean_name d" and ne: "ds \<noteq> []"
  shows "rel_of env (sl @ join_sep ''/'' (C @ ds)) (sl @ join_sep ''/'' C) = join_sep ''/'' ds"
proof -
  have Cds: "\<forall>c \<in> set (C @ ds). clean_name c"
    using C ds by auto
  show ?thesis
    unfolding rel_of_def Let_def
      abspath_rooted_components [OF sl C] abspath_rooted_components [OF sl Cds]
      commonprefix_append
    using ne by simp
qed

lemma rooted_neq:
  assumes sl: "sl = ''/'' \<or> sl = ''//''"
      and C: "\<forall>c \<in> set C. clean_name c" and ds: "\<forall>d \<in> set ds. clean_name d" and ne: "ds \<noteq> []"
  shows "sl @ join_sep ''/'' (C @ ds) \<noteq> sl @ join_sep ''/'' C"
proof
  assume "sl @ join_sep ''/'' (C @ ds) = sl @ join_sep ''/'' C"
  then have "components (join_sep ''/'' (C @ ds)) = components (join_sep ''/'' C)"
    by simp
  moreover have "components (join_sep ''/'' (C @ ds)) = C @ ds"
    using C ds by (intro components_join_sep) (auto simp: clean_name_def)
  moreover have "components (join_sep ''/'' C) = C"
    using C by (intro components_join_sep) (auto simp: clean_name_def)
  ultimately show False
    using ne by simp
qed

text \<open>
  The upload path that the loop computes for the directory reached from the root of the
  walk through the directories \<open>ds\<close>.
\<close>

lemma walk_upload_path:
  assumes sl: "sl = ''/'' \<or> sl = ''//''"
      and C: "\<forall>c \<in> set C. clean_name c" and ds: "\<forall>d \<in> set ds. clean_name d"
      and L: "local_dir = sl @ join_sep ''/'' C"
      and root: "root = foldl posix_join local_dir ds"
  shows "(if root \<noteq> local_dir
          then (case relpath env root local_dir of
                  Inl e \<Rightarrow> Inl e
                | Inr rel_path \<Rightarrow> Inr (posix_join dest_path rel_path))
          else Inr dest_path)
         = Inr (if ds = [] then dest_path else posix_join dest_path (join_sep ''/'' ds))"
proof (cases "ds = []")
  case True
  then show ?thesis using root by simp
next
  case False
  have r: "root = sl @ join_sep ''/'' (C @ ds)"
    unfolding root L by (rule foldl_posix_join_rooted [OF sl C ds])
  have "root \<noteq> []"
    using r sl by auto
  moreover have "root \<noteq> local_dir"
    unfolding r L by (rule rooted_neq [OF sl C ds False])
  moreover have "rel_of env root local_dir = join_sep ''/'' ds"
    unfolding r L by (rule rel_of_rooted [OF sl C ds False])
  ultimately show ?thesis
    using False by (simp add: relpath_def)
qed

text \<open>
  The two nested loops over the walk of a tree make the uploads of \<open>tree_files\<close>, each at
  its \<open>upload_key\<close>, in order, and stop at the first failure.
\<close>

lemma walk_loop_os_walk:
  assumes sl: "sl = ''/'' \<or> sl = ''//''"
      and C: "\<forall>c \<in> set C. clean_name c"
      and L: "local_dir = sl @ join_sep ''/'' C"
  shows "clean_tree t \<Longrightarrow> \<forall>d \<in> set ds. clean_name d \<Longrightarrow>
     walk_loop env srv h dest local_dir (os_walk (foldl posix_join local_dir ds) t) tr =
       put_all srv h
         (map (\<lambda>(ds', f). (upload_key dest ds' f, posix_join (foldl posix_join local_dir ds') f))
            (tree_files ds t)) tr"
proof (induction ds t arbitrary: tr rule: tree_files.induct)
  case (1 ds fs subs)
  let ?root = "foldl posix_join local_dir ds"
  let ?g = "\<lambda>(ds', f). (upload_key dest ds' f, posix_join (foldl posix_join local_dir ds') f)"
  define up where "up = (if ds = [] then dest else posix_join dest (join_sep ''/'' ds))"
  define plan_here where "plan_here = map (\<lambda>f. (posix_join up f, posix_join ?root f)) fs"
  have ds: "\<forall>d \<in> set ds. clean_name d"
    using "1.prems"(2) .
  have here: "map ?g (map (\<lambda>f. (ds, f)) fs) = plan_here"
    by (simp add: upload_key_def up_def plan_here_def)
  have below: "walk_loop env srv h dest local_dir
                 (concat (map (\<lambda>(d, t). os_walk (posix_join ?root d) t) ss)) tr'
               = put_all srv h
                   (map ?g (concat (map (\<lambda>(d, t). tree_files (ds @ [d]) t) ss))) tr'"
    if "set ss \<subseteq> set subs" for ss tr'
    using that
  proof (induction ss arbitrary: tr')
    case Nil
    then show ?case by simp
  next
    case (Cons p ss)
    obtain d t where p: "p = (d, t)" by (cases p)
    have mem: "(d, t) \<in> set subs"
      using Cons.prems p by simp
    then have ct: "clean_name d \<and> clean_tree t"
      using "1.prems"(1) by (auto simp: list_all_iff)
    then have dsd: "\<forall>c \<in> set (ds @ [d]). clean_name c"
      using ds by simp
    have one: "walk_loop env srv h dest local_dir (os_walk (posix_join ?root d) t) tr''
                 = put_all srv h (map ?g (tree_files (ds @ [d]) t)) tr''" for tr''
      using "1.IH" [OF mem refl _ dsd, of tr''] ct by simp
    have rest: "walk_loop env srv h dest local_dir
                 (concat (map (\<lambda>(d, t). os_walk (posix_join ?root d) t) ss)) tr''
               = put_all srv h
                   (map ?g (concat (map (\<lambda>(d, t). tree_files (ds @ [d]) t) ss))) tr''" for tr''
      using Cons.IH [of tr''] Cons.prems by simp
    show ?case
      by (simp add: p walk_loop_append put_all_append one rest split: prod.splits sum.splits)
  qed
  have up: "(if ?root \<noteq> local_dir
             then (case relpath env ?root local_dir of
                     Inl e \<Rightarrow> Inl e
                   | Inr rel_path \<Rightarrow> Inr (posix_join dest rel_path))
             else Inr dest) = Inr up"
    unfolding up_def by (rule walk_upload_path [OF sl C ds L refl])
  have step: "walk_loop env srv h dest local_dir (os_walk ?root (Dir fs subs)) tr =
      (case put_all srv h plan_here tr of
         (Inl e, tr') \<Rightarrow> (Inl e, tr')
       | (Inr _, tr') \<Rightarrow>
           walk_loop env srv h dest local_dir
             (concat (map (\<lambda>(d, t). os_walk (posix_join ?root d) t) subs)) tr')"
    unfolding os_walk.simps walk_loop.simps up plan_here_def
    by (simp only: sum.case put_files_put_all)
  have plan: "put_all srv h (map ?g (tree_files ds (Dir fs subs))) tr =
      (case put_all srv h plan_here tr of
         (Inl e, tr') \<Rightarrow> (Inl e, tr')
       | (Inr _, tr') \<Rightarrow>
           put_all srv h
             (map ?g (concat (map (\<lambda>(d, t). tree_files (ds @ [d]) t) subs))) tr')"
    unfolding tree_files.simps map_append put_all_append here ..
  show ?case
    unfolding step plan using below [OF subset_refl]
    by (auto split: prod.splits sum.splits)
qed

lemma log_artifacts_put_all:
  assumes parse: "parse_oss_uri env (artifact_uri r) = Inr (b, dest0)"
      and handle: "get_oss_bucket r b = (Inr h, r')"
      and cwd: "startswith (getcwd env) ''/''"
      and tree: "local_dirs env (abspath env local_dir0) = Some t"
      and clean: "clean_tree t"
  shows "log_artifacts env srv r tr local_dir0 sub =
     (case put_all srv h
             (map (\<lambda>(ds, f).
                     (upload_key (case sub of None \<Rightarrow> dest0
                                  | Some s \<Rightarrow> if s \<noteq> [] then posix_join dest0 s else dest0) ds f,
                      posix_join (foldl posix_join (abspath env local_dir0) ds) f))
                (tree_files [] t)) tr of
        (res, tr') \<Rightarrow> (res, r', tr'))"
proof -
  obtain sl C where sl: "sl = ''/'' \<or> sl = ''//''" and C: "\<forall>c \<in> set C. clean_name c"
    and L: "abspath env local_dir0 = sl @ join_sep ''/'' C"
    using abspath_form [OF cwd, of local_dir0] by blast
  have "walk_loop env srv h dest (abspath env local_dir0)
          (os_walk (foldl posix_join (abspath env local_dir0) []) t) tr =
        put_all srv h
          (map (\<lambda>(ds', f). (upload_key dest ds' f,
                             posix_join (foldl posix_join (abspath env local_dir0) ds') f))
             (tree_files [] t)) tr" for dest
    by (rule walk_loop_os_walk [OF sl C L clean]) simp
  then show ?thesis
    using parse handle tree by (simp add: log_artifacts_def Let_def)
qed

text \<open>
  C4. With the URI parsed, the handle obtained and an absolute working directory, the
  directory upload of a tree whose directories have proper names makes the uploads of
  \<open>tree_files\<close> in the order of the walk and stops at the first one the storage
  refuses. Each file goes to the join of the effective root, the relative directory path
  (the directory names joined by \<open>/\<close>) and the file name; a file of the root goes to
  the join of the effective root and the file name. When the operation returns without
  an exception, which it does if the storage refuses nothing, the calls made are exactly
  these uploads. For the tree \<open>root/{f1.txt, sub/f2.txt}\<close> and the effective root
  \<open>run\<close> the keys are \<open>run/f1.txt\<close> and \<open>run/sub/f2.txt\<close>.
\<close>

theorem log_artifacts_keys:
  assumes "parse_oss_uri env (artifact_uri r) = Inr (b, dest0)"
      and "get_oss_bucket r b = (Inr h, r')"
      and "startswith (getcwd env) ''/''"
      and "local_dirs env (abspath env local_dir0) = Some t"
      and "clean_tree t"
      and "effective_root = (case sub of None \<Rightarrow> dest0
                             | Some s \<Rightarrow> if s \<noteq> [] then posix_join dest0 s else dest0)"
      and "plan = map (\<lambda>(ds, f). (upload_key effective_root ds f,
                                   posix_join (foldl posix_join (abspath env local_dir0) ds) f))
                    (tree_files [] t)"
  shows "log_artifacts env srv r tr local_dir0 sub =
           (fst (put_all srv h plan tr), r', snd (put_all srv h plan tr))
       \<and> (fst (log_artifacts env srv r tr local_dir0 sub) = Inr () \<longrightarrow>
            snd (snd (log_artifacts env srv r tr local_dir0 sub)) =
              tr @ map (\<lambda>(k, f). PutObjectFromFile h k f) plan)
       \<and> ((\<forall>tr' k f. put_raises srv tr' h k f = None) \<longrightarrow>
            fst (log_artifacts env srv r tr local_dir0 sub) = Inr ())
       \<and> (\<exists>n \<le> length plan.
            snd (snd (log_artifacts env srv r tr local_dir0 sub)) =
              tr @ take n (map (\<lambda>(k, f). PutObjectFromFile h k f) plan))
       \<and> (t = Dir [''f1.txt''] [(''sub'', Dir [''f2.txt''] [])] \<and> effective_root = ''run'' \<longrightarrow>
            map fst plan = [''run/f1.txt'', ''run/sub/f2.txt''])"
proof -
  have eq: "log_artifacts env srv r tr local_dir0 sub =
           (fst (put_all srv h plan tr), r', snd (put_all srv h plan tr))"
    unfolding log_artifacts_put_all [OF assms(1-5)] assms(6,7)
    by (simp add: case_prod_beta)
  have ex: "map fst plan = [''run/f1.txt'', ''run/sub/f2.txt'']"
    if "t = Dir [''f1.txt''] [(''sub'', Dir [''f2.txt''] [])]" "effective_root = ''run''"
    unfolding assms(7) that
    by (simp add: upload_key_def posix_join_def startswith_def endswith_def)
  show ?thesis
    unfolding eq
    using put_all_success [of srv h plan tr] put_all_no_raise [of srv h plan tr]
      put_all_prefix [of plan srv h tr] ex
    by simp
qed

theorem log_artifacts_keys_witness:
  "log_artifacts example_env example_service (example_repo ''oss://mybucket/run'') [] ''root'' None
     = (Inr (), (example_repo ''oss://mybucket/run'')\<lparr>oss_bucket := Some example_handle\<rparr>,
        [PutObjectFromFile example_handle ''run/f1.txt'' ''/home/u/root/f1.txt'',
         PutObjectFromFile example_handle ''run/sub/f2.txt'' ''/home/u/root/sub/f2.txt''])"
proof -
  let ?t = "Dir [''f1.txt''] [(''sub'', Dir [''f2.txt''] [])]"
  let ?plan = "[(''run/f1.txt'', ''/home/u/root/f1.txt''),
                (''run/sub/f2.txt'', ''/home/u/root/sub/f2.txt'')]"
  have cwd: "startswith (getcwd example_env) ''/''"
    by (simp add: example_env_def startswith_def)
  have ab: "abspath example_env ''root'' = ''/home/u/root''"
    by (simp add: abspath_def isabs_def normpath_def posix_join_def startswith_def
        endswith_def example_env_def Let_def)
  have tree: "local_dirs example_env (abspath example_env ''root'') = Some ?t"
    unfolding ab by (simp add: example_env_def)
  have clean: "clean_tree ?t"
    by (simp add: clean_name_def)
  have root: "''run'' = (case None of None \<Rightarrow> ''run''
                         | Some s \<Rightarrow> if s \<noteq> [] then posix_join ''run'' s else ''run'')"
    by simp
  have plan: "?plan = map (\<lambda>(ds, f). (upload_key ''run'' ds f,
                 posix_join (foldl posix_join (abspath example_env ''root'') ds) f))
               (tree_files [] ?t)"
    unfolding ab by (simp add: upload_key_def posix_join_def startswith_def endswith_def)
  have quiet: "\<forall>tr' k f. put_raises example_service tr' example_handle k f = None"
    by (simp add: example_service_def)
  note t = log_artifacts_keys
    [OF parse_oss_uri_example_repo_run get_oss_bucket_example cwd tree clean root plan,
     of example_service "[]"]
  from t [THEN conjunct2, THEN conjunct2, THEN conjunct1] quiet
  have ok: "fst (log_artifacts example_env example_service (example_repo ''oss://mybucket/run'')
                  [] ''root'' None) = Inr ()"
    by blast
  from t [THEN conjunct2, THEN conjunct1] ok
  have calls: "snd (snd (log_artifacts example_env example_service
                  (example_repo ''oss://mybucket/run'') [] ''root'' None))
        = [PutObjectFromFile example_handle ''run/f1.txt'' ''/home/u/root/f1.txt'',
           PutObjectFromFile example_handle ''run/sub/f2.txt'' ''/home/u/root/sub/f2.txt'']"
    by simp
  from t [THEN conjunct1]
  have "fst (snd (log_artifacts example_env example_service
                  (example_repo ''oss://mybucket/run'') [] ''root'' None))
        = (example_repo ''oss://mybucket/run'')\<lparr>oss_bucket := Some example_handle\<rparr>"
    by simp
  with ok calls show ?thesis
    by (metis prod.collapse)
qed

section \<open>Properties of an absolute sub-path\<close>

text \<open>
  C10, as the code has it. When the sub-path begins with \<open>/\<close>, the join drops the base
  prefix: the upload puts the file under the sub-path alone, the download gets the
  object whose key is the sub-path, and the listing queries the sub-path followed by
  \<open>/\<close>. None of them refuses the sub-path, and the upload and the download fail only
  if the storage raises. With a base prefix that is not empty and does not itself begin
  with \<open>/\<close>, these keys do not start with the base prefix; the listing then returns the
  empty list when the storage, honouring the query, returns nothing, and raises the
  path-mismatch exception on the first key or prefix that the storage returns.
\<close>

theorem absolute_subpath_discards_prefix:
  assumes "parse_oss_uri env (artifact_uri r) = Inr (b, ap)"
      and "get_oss_bucket r b = (Inr h, r')"
      and "startswith s ''/''"
  shows "snd (snd (log_artifact env srv r tr f (Some s))) =
           tr @ [PutObjectFromFile h (posix_join s (basename f)) f]
       \<and> fst (log_artifact env srv r tr f (Some s)) =
           (case put_raises srv tr h (posix_join s (basename f)) f of
              None \<Rightarrow> Inr () | Some msg \<Rightarrow> Inl (StorageError msg))
       \<and> snd (snd (download_file env srv r tr s lp)) = tr @ [GetObjectToFile h s lp]
       \<and> fst (download_file env srv r tr s lp) =
           (case get_raises srv tr h s lp of
              None \<Rightarrow> Inr () | Some msg \<Rightarrow> Inl (StorageError msg))
       \<and> snd (snd (list_artifacts env srv r tr (Some s))) =
           tr @ [ListObjects h (s @ ''/'') ''/'']
       \<and> (ap \<noteq> [] \<and> \<not> startswith ap ''/'' \<longrightarrow>
            \<not> startswith (posix_join s (basename f)) ap
            \<and> \<not> startswith s ap \<and> \<not> startswith (s @ ''/'') ap)
       \<and> (ap \<noteq> [] \<and> \<not> startswith ap ''/''
            \<and> list_answer srv tr h (s @ ''/'') ''/'' = Inr res
            \<and> (\<forall>k \<in> set (map obj_key (object_list res) @ prefix_list res).
                  startswith k (s @ ''/''))
          \<longrightarrow> fst (list_artifacts env srv r tr (Some s)) =
                (if map obj_key (object_list res) @ prefix_list res = [] then Inr []
                 else Inl (ObjectPathMismatch ap
                             (hd (map obj_key (object_list res) @ prefix_list res)))))"
proof -
  have ne: "s \<noteq> []" and hd: "hd s = CHR ''/''"
    using assms(3) by (simp_all add: startswith_slash)
  have j: "posix_join ap s = s"
    using assms(3) by (rule posix_join_abs)
  have k: "posix_join s (basename f) \<noteq> [] \<and> hd (posix_join s (basename f)) = CHR ''/''"
    using ne hd basename_not_abs [of f] by (simp add: posix_join_def)
  have out: "\<not> startswith k ap" if "ap \<noteq> []" "\<not> startswith ap ''/''" "k \<noteq> []" "hd k = CHR ''/''" for k
    using that startswith_hd [of k ap] by (auto simp: startswith_slash)
  have first: "snd (snd (log_artifact env srv r tr f (Some s))) =
           tr @ [PutObjectFromFile h (posix_join s (basename f)) f]
       \<and> fst (log_artifact env srv r tr f (Some s)) =
           (case put_raises srv tr h (posix_join s (basename f)) f of
              None \<Rightarrow> Inr () | Some msg \<Rightarrow> Inl (StorageError msg))
       \<and> snd (snd (download_file env srv r tr s lp)) = tr @ [GetObjectToFile h s lp]
       \<and> fst (download_file env srv r tr s lp) =
           (case get_raises srv tr h s lp of
              None \<Rightarrow> Inr () | Some msg \<Rightarrow> Inl (StorageError msg))
       \<and> snd (snd (list_artifacts env srv r tr (Some s))) =
           tr @ [ListObjects h (s @ ''/'') ''/'']
       \<and> (ap \<noteq> [] \<and> \<not> startswith ap ''/'' \<longrightarrow>
            \<not> startswith (posix_join s (basename f)) ap
            \<and> \<not> startswith s ap \<and> \<not> startswith (s @ ''/'') ap)"
    using ne j k out [of s] out [of "s @ ''/''"] out [of "posix_join s (basename f)"] hd
    by (simp add: log_artifact_calls [OF assms(1,2)] log_artifact_result [OF assms(1,2)]
        download_file_calls [OF assms(1,2)] download_file_result [OF assms(1,2)]
        list_artifacts_calls [OF assms(1,2)])
  have listing: "fst (list_artifacts env srv r tr (Some s)) =
                (if map obj_key (object_list res) @ prefix_list res = [] then Inr []
                 else Inl (ObjectPathMismatch ap
                             (hd (map obj_key (object_list res) @ prefix_list res))))"
    if h: "ap \<noteq> [] \<and> \<not> startswith ap ''/''
            \<and> list_answer srv tr h (s @ ''/'') ''/'' = Inr res
            \<and> (\<forall>k \<in> set (map obj_key (object_list res) @ prefix_list res).
                  startswith k (s @ ''/''))"
  proof -
    let ?ks = "map obj_key (object_list res) @ prefix_list res"
    have ans: "list_answer srv tr h
             (let dest_path = (case Some s of None \<Rightarrow> ap
                               | Some s \<Rightarrow> if s \<noteq> [] then posix_join ap s else ap)
              in if dest_path \<noteq> [] then dest_path @ ''/'' else [])
             ''/'' = Inr res"
      using h ne j by simp
    have all: "\<forall>k \<in> set ?ks. \<not> startswith k ap"
    proof
      fix k assume "k \<in> set ?ks"
      then have "startswith k (s @ ''/'')" using h by blast
      then have "k \<noteq> [] \<and> hd k = CHR ''/''"
        using startswith_hd [of k "s @ ''/''"] ne hd by simp
      then show "\<not> startswith k ap"
        using out [of k] h by blast
    qed
    show ?thesis
    proof (cases "?ks = []")
      case True
      then show ?thesis
        unfolding list_artifacts_result [OF assms(1,2) ans] using h by simp
    next
      case False
      then have "filter (\<lambda>k. \<not> startswith k ap) ?ks = ?ks"
        using all by (simp only: filter_True)
      moreover have "\<exists>k \<in> set ?ks. \<not> startswith k ap"
        using False all by (cases ?ks) auto
      ultimately show ?thesis
        unfolding list_artifacts_result [OF assms(1,2) ans] using False
        by (simp only: if_True if_False)
    qed
  qed
  from first listing show ?thesis
    by blast
qed

theorem absolute_subpath_discards_prefix_witness:
  "snd (snd (log_artifact example_env absolute_service (example_repo ''oss://mybucket/run'') []
        ''/tmp/f.txt'' (Some ''/other'')))
     = [PutObjectFromFile example_handle ''/other/f.txt'' ''/tmp/f.txt'']
   \<and> fst (log_artifact example_env absolute_service (example_repo ''oss://mybucket/run'') []
        ''/tmp/f.txt'' (Some ''/other'')) = Inr ()
   \<and> snd (snd (download_file example_env absolute_service (example_repo ''oss://mybucket/run'') []
        ''/other'' ''/tmp/out''))
     = [GetObjectToFile example_handle ''/other'' ''/tmp/out'']
   \<and> snd (snd (list_artifacts example_env absolute_service (example_repo ''oss://mybucket/run'') []
        (Some ''/other'')))
     = [ListObjects example_handle ''/other/'' ''/'']
   \<and> \<not> startswith ''/other/f.txt'' ''run''
   \<and> fst (list_artifacts example_env absolute_service (example_repo ''oss://mybucket/run'') []
        (Some ''/other''))
     = Inl (ObjectPathMismatch ''run'' ''/other/a.txt'')"
proof -
  let ?res = "\<lparr>object_list = [\<lparr>obj_key = ''/other/a.txt'', obj_size = 3\<rparr>],
               prefix_list = []\<rparr>"
  have a: "startswith ''/other'' ''/''"
    by (simp add: startswith_def)
  have ans: "list_answer absolute_service [] example_handle (''/other'' @ ''/'') ''/'' = Inr ?res"
    by (simp add: absolute_service_def startswith_def)
  note t = absolute_subpath_discards_prefix
    [OF parse_oss_uri_example_repo_run get_oss_bucket_example a,
     of example_env absolute_service "[]" "''/tmp/f.txt''" "''/tmp/out''" ?res]
  from t ans show ?thesis
    by (simp add: posix_join_def basename_def startswith_def endswith_def absolute_service_def)
qed

theorem absolute_subpath_listing_counterexample:
  "parse_oss_uri example_env (artifact_uri (example_repo ''oss://mybucket/run''))
     = Inr (''mybucket'', ''run'')
   \<and> list_artifacts example_env absolute_service (example_repo ''oss://mybucket/run'') []
        (Some ''/other'')
     = (Inl (ObjectPathMismatch ''run'' ''/other/a.txt''),
        (example_repo ''oss://mybucket/run'')\<lparr>oss_bucket := Some example_handle\<rparr>,
        [ListObjects example_handle ''/other/'' ''/''])"
  by (simp add: parse_oss_uri_example_repo_run list_artifacts_def get_oss_bucket_example
      posix_join_def startswith_def list_objects_def absolute_service_def
      verify_listed_object_contains_artifact_path_prefix_def)

end
